theory Spec2Isabelle
  imports Complex_Main
begin

section \<open>JavaScript values, errors and the string primitives the route code calls\<close>

text \<open>
  The route string handed to \<open>RouteModel\<close> is an arbitrary JavaScript value; only a string
  passes lodash's \<open>_isString\<close>.
\<close>

datatype js_value =
    JSUndefined
  | JSNull
  | JSBoolean bool
  | JSNumber int
  | JSString string

datatype error = TypeError | ReferenceError | LegModelError

fun lodash_isString :: "js_value \<Rightarrow> bool" where
  "lodash_isString (JSString s) = True"
| "lodash_isString v = False"

text \<open>\<open>_first\<close> and \<open>_last\<close> give \<open>undefined\<close> (here \<open>None\<close>) on an empty array.\<close>

fun lodash_first :: "'a list \<Rightarrow> 'a option" where
  "lodash_first [] = None"
| "lodash_first (x # xs) = Some x"

fun lodash_last :: "'a list \<Rightarrow> 'a option" where
  "lodash_last [] = None"
| "lodash_last [x] = Some x"
| "lodash_last (x # y # ys) = lodash_last (y # ys)"

text \<open>
  The string a value becomes inside a template literal or as the pattern of
  \<open>String.prototype.replace\<close>: \<open>undefined\<close> is written out.
\<close>

fun js_String :: "string option \<Rightarrow> string" where
  "js_String None = ''undefined''"
| "js_String (Some s) = s"

text \<open>\<open>s.indexOf(pattern)\<close>: the position of the first occurrence, or \<open>-1\<close>.\<close>

fun js_indexOf_from :: "string \<Rightarrow> int \<Rightarrow> string \<Rightarrow> int" where
  "js_indexOf_from pat i [] = (if pat = [] then i else - 1)"
| "js_indexOf_from pat i (c # cs) =
     (if take (length pat) (c # cs) = pat then i else js_indexOf_from pat (i + 1) cs)"

definition js_indexOf :: "string \<Rightarrow> string \<Rightarrow> int" where
  "js_indexOf s pat = js_indexOf_from pat 0 s"

text \<open>
  \<open>s.split(separator)\<close> with a string separator: separators are found from the left and do
  not overlap; the empty separator cuts the string into its characters.
\<close>

fun js_split_loop :: "string \<Rightarrow> string \<Rightarrow> string \<Rightarrow> string list" where
  "js_split_loop sep cur [] = [cur]"
| "js_split_loop sep cur (c # cs) =
     (if sep \<noteq> [] \<and> take (length sep) (c # cs) = sep
      then cur # js_split_loop sep [] (drop (length sep) (c # cs))
      else js_split_loop sep (cur @ [c]) cs)"

definition js_split :: "string \<Rightarrow> string \<Rightarrow> string list" where
  "js_split s sep = (if sep = [] then map (\<lambda>c. [c]) s else js_split_loop sep [] s)"

text \<open>\<open>array.join(separator)\<close> on an array of strings.\<close>

fun js_join :: "string list \<Rightarrow> string \<Rightarrow> string" where
  "js_join [] sep = []"
| "js_join [x] sep = x"
| "js_join (x # y # ys) sep = x @ sep @ js_join (y # ys) sep"

text \<open>
  \<open>s.replace(pattern, replacement)\<close> with a string pattern: only the first occurrence is
  replaced. The source only passes the empty replacement, which has no \<open>$\<close> patterns.
\<close>

fun js_replace :: "string \<Rightarrow> string \<Rightarrow> string \<Rightarrow> string" where
  "js_replace [] pat rep = (if pat = [] then rep else [])"
| "js_replace (c # cs) pat rep =
     (if take (length pat) (c # cs) = pat then rep @ drop (length pat) (c # cs)
      else c # js_replace cs pat rep)"

text \<open>\<open>_chunk(array, size)\<close>: consecutive groups of \<open>size\<close> elements, the last one shorter
  when the elements do not divide evenly.\<close>

function lodash_chunk :: "'a list \<Rightarrow> nat \<Rightarrow> 'a list list" where
  "lodash_chunk xs n =
     (if n = 0 \<or> xs = [] then [] else take n xs # lodash_chunk (drop n xs) n)"
  by pat_completeness auto
termination
  by (relation "measure (\<lambda>(xs, n). length xs)") auto

declare lodash_chunk.simps [simp del]

text \<open>\<open>_findIndex(array, predicate)\<close>: the index of the first match, or \<open>-1\<close>.\<close>

fun lodash_findIndex_from :: "('a \<Rightarrow> bool) \<Rightarrow> int \<Rightarrow> 'a list \<Rightarrow> int" where
  "lodash_findIndex_from p i [] = - 1"
| "lodash_findIndex_from p i (x # xs) = (if p x then i else lodash_findIndex_from p (i + 1) xs)"

definition lodash_findIndex :: "'a list \<Rightarrow> ('a \<Rightarrow> bool) \<Rightarrow> int" where
  "lodash_findIndex xs p = lodash_findIndex_from p 0 xs"

text \<open>\<open>_without(array, value)\<close>: the array with every occurrence of the value removed.\<close>

definition lodash_without :: "'a list \<Rightarrow> 'a \<Rightarrow> 'a list" where
  "lodash_without xs v = filter (\<lambda>x. x \<noteq> v) xs"

text \<open>
  \<open>_map(collection, f)\<close>; lodash maps \<open>undefined\<close> (here \<open>None\<close>) to the empty array.
\<close>

fun lodash_map :: "'a list option \<Rightarrow> ('a \<Rightarrow> 'b) \<Rightarrow> 'b list" where
  "lodash_map None f = []"
| "lodash_map (Some xs) f = map f xs"

text \<open>
  The numbers \<open>Math.min\<close> and \<open>Math.max\<close> return over integer arguments: with no argument
  they are \<open>Infinity\<close> and \<open>-Infinity\<close>.
\<close>

datatype js_number = NegInfinity | Num int | Infinity

fun Math_min :: "int list \<Rightarrow> js_number" where
  "Math_min [] = Infinity"
| "Math_min (x # xs) = (case Math_min xs of Num m \<Rightarrow> Num (min x m) | other \<Rightarrow> Num x)"

fun Math_max :: "int list \<Rightarrow> js_number" where
  "Math_max [] = NegInfinity"
| "Math_max (x # xs) = (case Math_max xs of Num m \<Rightarrow> Num (max x m) | other \<Rightarrow> Num x)"

section \<open>Constants of the files that are not part of the sources read here\<close>

text \<open>
  Modelled from the spec: \<open>constants/globalConstants\<close> is missing. \<open>INVALID_INDEX\<close> is the
  value the source compares results of \<open>indexOf\<close> and \<open>_findIndex\<close> with to learn that
  nothing was found, which is \<open>-1\<close>.
\<close>

definition INVALID_INDEX :: int where
  "INVALID_INDEX = - 1"

text \<open>
  Modelled from the spec: \<open>constants/globalConstants\<close> is missing. \<open>INVALID_NUMBER\<close> is the
  "no constraint" sentinel that a leg returns for a missing altitude, the \<open>-1\<close> of the
  spec's unset restrictions.
\<close>

definition INVALID_NUMBER :: int where
  "INVALID_NUMBER = - 1"

text \<open>
  Modelled from the spec: \<open>constants/routeConstants\<close> is missing. The procedure-or-airway
  divider is the dot: the source writes it as a literal when it rebuilds a segment
  (\<open>`${exitOfPreviousSegment}.${procedureAndExitOfSegment}`\<close>) and its example of a chained
  route string is \<open>'KSFO28R.OFFSH9.SXC.V458.IPL'\<close>. The value of the direct-segment divider
  is not visible in the sources: the functions that use it take it as their first
  argument \<open>DIRECT_SEGMENT_DIVIDER\<close>.
\<close>

definition PROCEDURE_OR_AIRWAY_SEGMENT_DIVIDER :: string where
  "PROCEDURE_OR_AIRWAY_SEGMENT_DIVIDER = ''.''"

section \<open>WaypointModel\<close>

text \<open>
  The fields of the class, in the order of its constructor. A field whose name starts with
  an underscore in the source is written with the prefix \<open>wp_\<close> here. The position model
  is a reference owned by the navigation library: \<open>None\<close> is \<open>null\<close>.
\<close>

type_synonym StaticPositionModel_ref = nat

record WaypointModel =
  altitudeMaximum :: int
  altitudeMinimum :: int
  isHold :: bool
  speedMaximum :: int
  speedMinimum :: int
  timer :: int
  wp_holdingPatternInboundHeading :: real
  wp_isFlyOverWaypoint :: bool
  wp_isVector :: bool
  wp_legLength :: string
  wp_name :: string
  wp_positionModel :: "StaticPositionModel_ref option"
  wp_turnDirection :: string

text \<open>The values the constructor gives every field before \<open>init\<close> runs.\<close>

definition WaypointModel_defaults :: WaypointModel where
  "WaypointModel_defaults =
     \<lparr> altitudeMaximum = - 1, altitudeMinimum = - 1, isHold = False,
       speedMaximum = - 1, speedMinimum = - 1, timer = - 999,
       wp_holdingPatternInboundHeading = - 1, wp_isFlyOverWaypoint = False,
       wp_isVector = False, wp_legLength = [], wp_name = [],
       wp_positionModel = None, wp_turnDirection = [] \<rparr>"

text \<open>
  \<open>set name(nameUpdate) { this._name = name; }\<close>. The body reads the identifier \<open>name\<close>,
  which is neither the parameter nor a binding of the module, so it is looked up in the
  global scope: \<open>globalName\<close> is the string bound there, \<open>None\<close> when nothing is. In a
  module (strict mode) reading an unbound identifier throws before the assignment. The
  result is the error thrown, if any, and the waypoint after the call.
\<close>

definition set_name :: "string option \<Rightarrow> string \<Rightarrow> WaypointModel \<Rightarrow> error option \<times> WaypointModel" where
  "set_name globalName nameUpdate w =
     (case globalName of
        None \<Rightarrow> (Some ReferenceError, w)
      | Some name \<Rightarrow> (None, w\<lparr>wp_name := name\<rparr>))"

definition hasAltitudeRestriction :: "WaypointModel \<Rightarrow> bool" where
  "hasAltitudeRestriction w \<longleftrightarrow> altitudeMaximum w \<noteq> - 1 \<or> altitudeMinimum w \<noteq> - 1"

definition hasSpeedRestriction :: "WaypointModel \<Rightarrow> bool" where
  "hasSpeedRestriction w \<longleftrightarrow> speedMaximum w \<noteq> - 1 \<or> speedMinimum w \<noteq> - 1"

definition hasRestriction :: "WaypointModel \<Rightarrow> bool" where
  "hasRestriction w \<longleftrightarrow> hasAltitudeRestriction w \<or> hasSpeedRestriction w"

definition destroy :: "WaypointModel \<Rightarrow> WaypointModel" where
  "destroy w =
     w\<lparr> wp_name := [], wp_turnDirection := [], wp_legLength := [],
        wp_positionModel := None,
        isHold := False, speedMaximum := - 1, speedMinimum := - 1,
        altitudeMaximum := - 1, altitudeMinimum := - 1, timer := - 999 \<rparr>"

definition updateWaypointWithHoldProps :: "real \<Rightarrow> string \<Rightarrow> string \<Rightarrow> WaypointModel \<Rightarrow> WaypointModel" where
  "updateWaypointWithHoldProps inboundHeading turnDirection legLength w =
     w\<lparr> isHold := True, wp_holdingPatternInboundHeading := inboundHeading,
        wp_turnDirection := turnDirection, wp_legLength := legLength \<rparr>"

section \<open>LegModel\<close>

text \<open>
  Modelled from the spec: \<open>LegModel.js\<close> is missing. A leg is built from one route-string
  segment and keeps it as its \<open>routeString\<close>; it owns an ordered sequence of waypoints,
  split by its cursor into the remaining ones (\<open>waypoints\<close>, the first of which is the
  current waypoint) and the ones already flown; it carries the SID and STAR flags and the
  values its \<open>getProcedureTopAltitude()\<close> and \<open>getProcedureBottomAltitude()\<close> return.
  The fields and methods of a leg have the prefix \<open>leg_\<close>, since the route has methods of
  the same names.
\<close>

record LegModel =
  leg_routeString :: string
  leg_waypoints :: "WaypointModel list"
  leg_previousWaypoints :: "WaypointModel list"
  leg_isSidLeg :: bool
  leg_isStarLeg :: bool
  leg_getProcedureTopAltitude :: int
  leg_getProcedureBottomAltitude :: int

text \<open>Modelled from the spec: the current waypoint of a leg, \<open>undefined\<close> when none remains.\<close>

definition leg_currentWaypoint :: "LegModel \<Rightarrow> WaypointModel option" where
  "leg_currentWaypoint leg = lodash_first (leg_waypoints leg)"

text \<open>Modelled from the spec: \<open>hasNextWaypoint()\<close> of a leg, whether a waypoint remains after
  the current one.\<close>

definition leg_hasNextWaypoint :: "LegModel \<Rightarrow> bool" where
  "leg_hasNextWaypoint leg \<longleftrightarrow> length (leg_waypoints leg) > 1"

text \<open>Modelled from the spec: \<open>hasWaypoint(name)\<close> of a leg, whether one of its remaining
  waypoints has that identifier.\<close>

definition leg_hasWaypoint :: "string \<Rightarrow> LegModel \<Rightarrow> bool" where
  "leg_hasWaypoint waypointName leg \<longleftrightarrow> waypointName \<in> set (map wp_name (leg_waypoints leg))"

text \<open>Modelled from the spec: \<open>skipToNextWaypoint()\<close> of a leg moves the current waypoint out
  of the remaining sequence, into the flown one.\<close>

definition leg_skipToNextWaypoint :: "LegModel \<Rightarrow> LegModel" where
  "leg_skipToNextWaypoint leg =
     (case leg_waypoints leg of
        [] \<Rightarrow> leg
      | w # ws \<Rightarrow> leg\<lparr> leg_waypoints := ws,
                       leg_previousWaypoints := leg_previousWaypoints leg @ [w] \<rparr>)"

text \<open>Modelled from the spec: \<open>skipToWaypoint(name)\<close> of a leg fails when no remaining
  waypoint has that identifier; otherwise it moves the waypoints before the first such
  waypoint out of the remaining sequence, so that the named waypoint is the current one,
  and succeeds. The result is the value returned and the leg after the call.\<close>

definition leg_skipToWaypoint :: "string \<Rightarrow> LegModel \<Rightarrow> bool \<times> LegModel" where
  "leg_skipToWaypoint waypointName leg =
     (let waypointIndex = lodash_findIndex (leg_waypoints leg) (\<lambda>w. wp_name w = waypointName)
      in if waypointIndex = INVALID_INDEX then (False, leg)
         else (True, leg\<lparr> leg_waypoints := drop (nat waypointIndex) (leg_waypoints leg),
                          leg_previousWaypoints :=
                            leg_previousWaypoints leg @ take (nat waypointIndex) (leg_waypoints leg) \<rparr>))"

section \<open>RouteModel\<close>

text \<open>
  The two leg arrays of the class (\<open>_legCollection\<close>, \<open>_previousLegCollection\<close>). The third
  field of the class, the navigation library, is only handed to \<open>new LegModel\<close>: the
  functions that build legs take that constructor, with the library already applied, as
  the argument \<open>newLegModel\<close>, whose result is the leg built or the error thrown.
\<close>

record RouteModel =
  rt_legCollection :: "LegModel list"
  rt_previousLegCollection :: "LegModel list"

type_synonym LegModel_constructor = "string \<Rightarrow> error + LegModel"

text \<open>The \<open>currentLeg\<close> getter throws on a route without legs.\<close>

definition currentLeg :: "RouteModel \<Rightarrow> error + LegModel" where
  "currentLeg r =
     (if length (rt_legCollection r) < 1 then Inl TypeError
      else Inr (rt_legCollection r ! 0))"

definition waypoints :: "RouteModel \<Rightarrow> WaypointModel list" where
  "waypoints r =
     foldl (\<lambda>waypointList legModel. waypointList @ leg_waypoints legModel) [] (rt_legCollection r)"

definition hasNextLeg :: "RouteModel \<Rightarrow> bool" where
  "hasNextLeg r \<longleftrightarrow> length (rt_legCollection r) > 1"

fun hasWaypoint_loop :: "string \<Rightarrow> LegModel list \<Rightarrow> bool" where
  "hasWaypoint_loop waypointName [] = False"
| "hasWaypoint_loop waypointName (leg # legs) =
     (if leg_hasWaypoint waypointName leg then True else hasWaypoint_loop waypointName legs)"

definition hasWaypoint :: "string \<Rightarrow> RouteModel \<Rightarrow> bool" where
  "hasWaypoint waypointName r = hasWaypoint_loop waypointName (rt_legCollection r)"

subsection \<open>Altitudes\<close>

definition getBottomAltitude :: "RouteModel \<Rightarrow> js_number" where
  "getBottomAltitude r =
     (let valueToExclude = INVALID_NUMBER;
          minAltitudeFromLegs =
            lodash_without
              (lodash_map (Some (rt_legCollection r)) leg_getProcedureBottomAltitude)
              valueToExclude
      in Math_min minAltitudeFromLegs)"

text \<open>
  \<open>getTopAltitude\<close> reads \<open>this.legCollection\<close>, without the underscore. The class assigns
  \<open>_legCollection\<close> and \<open>_previousLegCollection\<close> and declares no getter of that name, so
  the property read is \<open>undefined\<close> whatever the route holds.
\<close>

definition this_legCollection :: "RouteModel \<Rightarrow> LegModel list option" where
  "this_legCollection r = None"

definition getTopAltitude :: "RouteModel \<Rightarrow> js_number" where
  "getTopAltitude r =
     (let maxAltitudeFromLegs = lodash_map (this_legCollection r) leg_getProcedureTopAltitude
      in Math_max maxAltitudeFromLegs)"

subsection \<open>Replacing procedures\<close>

text \<open>The result is the boolean returned and the route after the call.\<close>

definition replaceArrivalProcedure :: "LegModel_constructor \<Rightarrow> string \<Rightarrow> RouteModel \<Rightarrow> bool \<times> RouteModel" where
  "replaceArrivalProcedure newLegModel routeString r =
     (case newLegModel routeString of
        Inl error \<Rightarrow> (False, r)
      | Inr starLegModel \<Rightarrow>
          (let starLegIndex = lodash_findIndex (rt_legCollection r) leg_isStarLeg
           in if starLegIndex = INVALID_INDEX
              then (True, r\<lparr> rt_legCollection := rt_legCollection r @ [starLegModel] \<rparr>)
              else (True, r\<lparr> rt_legCollection :=
                              (rt_legCollection r)[nat starLegIndex := starLegModel] \<rparr>)))"

definition replaceDepartureProcedure :: "LegModel_constructor \<Rightarrow> string \<Rightarrow> RouteModel \<Rightarrow> bool \<times> RouteModel" where
  "replaceDepartureProcedure newLegModel routeString r =
     (case newLegModel routeString of
        Inl error \<Rightarrow> (False, r)
      | Inr sidLegModel \<Rightarrow>
          (let sidLegIndex = lodash_findIndex (rt_legCollection r) leg_isSidLeg
           in if sidLegIndex = INVALID_INDEX
              then (True, r\<lparr> rt_legCollection := sidLegModel # rt_legCollection r \<rparr>)
              else (True, r\<lparr> rt_legCollection :=
                              (rt_legCollection r)[nat sidLegIndex := sidLegModel] \<rparr>)))"

subsection \<open>Skipping ahead\<close>

text \<open>\<open>array.splice(0, n)\<close> removes the first \<open>n\<close> elements and returns them: the result is
  the removed elements and the array that is left.\<close>

definition js_splice0 :: "'a list \<Rightarrow> nat \<Rightarrow> 'a list \<times> 'a list" where
  "js_splice0 xs n = (take n xs, drop n xs)"

definition skipToNextLeg :: "RouteModel \<Rightarrow> RouteModel" where
  "skipToNextLeg r =
     (if \<not> hasNextLeg r then r
      else (let (legToMove, rest) = js_splice0 (rt_legCollection r) 1
            in r\<lparr> rt_legCollection := rest,
                   rt_previousLegCollection := rt_previousLegCollection r @ legToMove \<rparr>))"

definition skipToNextWaypoint :: "RouteModel \<Rightarrow> error + RouteModel" where
  "skipToNextWaypoint r =
     (case currentLeg r of
        Inl error \<Rightarrow> Inl error
      | Inr leg \<Rightarrow>
          if \<not> leg_hasNextWaypoint leg then Inr (skipToNextLeg r)
          else Inr (r\<lparr> rt_legCollection := (rt_legCollection r)[0 := leg_skipToNextWaypoint leg] \<rparr>))"

text \<open>
  \<open>skipToWaypointName\<close>: the legs are objects mutated in place, so the first call of
  \<open>skipToWaypoint\<close> on the current leg is written back to position 0 of the array before
  the search for the matching leg.
\<close>

definition skipToWaypointName :: "string \<Rightarrow> RouteModel \<Rightarrow> error + bool \<times> RouteModel" where
  "skipToWaypointName waypointName r =
     (if \<not> hasWaypoint waypointName r then Inr (False, r)
      else
        (case currentLeg r of
           Inl error \<Rightarrow> Inl error
         | Inr leg \<Rightarrow>
             (let r1 = (if leg_hasWaypoint waypointName leg
                        then r\<lparr> rt_legCollection :=
                                  (rt_legCollection r)[0 := snd (leg_skipToWaypoint waypointName leg)] \<rparr>
                        else r);
                  legIndex = lodash_findIndex (rt_legCollection r1) (leg_hasWaypoint waypointName);
                  (legModelsToMove, rest) = js_splice0 (rt_legCollection r1) (nat legIndex);
                  r2 = r1\<lparr> rt_legCollection := rest,
                           rt_previousLegCollection := rt_previousLegCollection r1 @ legModelsToMove \<rparr>
              in case currentLeg r2 of
                   Inl error \<Rightarrow> Inl error
                 | Inr leg2 \<Rightarrow>
                     (let (result, leg3) = leg_skipToWaypoint waypointName leg2
                      in Inr (result, r2\<lparr> rt_legCollection := (rt_legCollection r2)[0 := leg3] \<rparr>)))))"

subsection \<open>Dividing a route string into segments\<close>

text \<open>
  The body of the outer loop of \<open>_divideRouteStringIntoSegments\<close>: the strings pushed for one
  chained route string. \<open>splice(0, 3)\<close> takes the first three elements out of
  \<open>elementsInChain\<close>, leaving the rest for \<open>_chunk\<close>.
\<close>

definition segmentsOfChainedRouteString :: "string \<Rightarrow> string list" where
  "segmentsOfChainedRouteString chainedRouteString =
     (let elementsInChain = js_split chainedRouteString PROCEDURE_OR_AIRWAY_SEGMENT_DIVIDER;
          (firstSegment, elementsLeft) = js_splice0 elementsInChain 3;
          segments = firstSegment # lodash_chunk elementsLeft 2
      in js_join firstSegment PROCEDURE_OR_AIRWAY_SEGMENT_DIVIDER #
         map (\<lambda>j. (let exitOfPreviousSegment = lodash_last (segments ! (j - 1));
                        procedureAndExitOfSegment =
                          js_join (segments ! j) PROCEDURE_OR_AIRWAY_SEGMENT_DIVIDER
                    in js_String exitOfPreviousSegment @ ''.'' @ procedureAndExitOfSegment))
             [1..<length segments])"

definition divideRouteStringIntoSegments :: "string \<Rightarrow> js_value \<Rightarrow> error + string list" where
  "divideRouteStringIntoSegments DIRECT_SEGMENT_DIVIDER routeString =
     (case routeString of
        JSString s \<Rightarrow>
          if js_indexOf s '' '' \<noteq> INVALID_INDEX then Inl TypeError
          else (let chainedRouteStrings = js_split s DIRECT_SEGMENT_DIVIDER
                in Inr (foldl (\<lambda>segmentRouteStrings chainedRouteString.
                                  segmentRouteStrings @ segmentsOfChainedRouteString chainedRouteString)
                              [] chainedRouteStrings))
      | notAString \<Rightarrow> Inl TypeError)"

subsection \<open>Building the legs and the route\<close>

text \<open>\<open>_map\<close> with a callback that may throw: the first error ends the mapping.\<close>

fun lodash_map_throwing :: "('a \<Rightarrow> error + 'b) \<Rightarrow> 'a list \<Rightarrow> error + 'b list" where
  "lodash_map_throwing f [] = Inr []"
| "lodash_map_throwing f (x # xs) =
     (case f x of
        Inl error \<Rightarrow> Inl error
      | Inr y \<Rightarrow> (case lodash_map_throwing f xs of
                    Inl error \<Rightarrow> Inl error
                  | Inr ys \<Rightarrow> Inr (y # ys)))"

definition generateLegsFromRouteString :: "string \<Rightarrow> LegModel_constructor \<Rightarrow> js_value \<Rightarrow> error + LegModel list" where
  "generateLegsFromRouteString DIRECT_SEGMENT_DIVIDER newLegModel routeString =
     (case divideRouteStringIntoSegments DIRECT_SEGMENT_DIVIDER routeString of
        Inl error \<Rightarrow> Inl error
      | Inr segments \<Rightarrow> lodash_map_throwing newLegModel segments)"

definition verifyRouteContainsMultipleWaypoints :: "RouteModel \<Rightarrow> error + unit" where
  "verifyRouteContainsMultipleWaypoints r =
     (if length (waypoints r) < 2 then Inl TypeError else Inr ())"

definition init :: "string \<Rightarrow> LegModel_constructor \<Rightarrow> js_value \<Rightarrow> RouteModel \<Rightarrow> error + RouteModel" where
  "init DIRECT_SEGMENT_DIVIDER newLegModel routeString r =
     (case generateLegsFromRouteString DIRECT_SEGMENT_DIVIDER newLegModel routeString of
        Inl error \<Rightarrow> Inl error
      | Inr legs \<Rightarrow>
          (let r' = r\<lparr> rt_legCollection := legs \<rparr>
           in case verifyRouteContainsMultipleWaypoints r' of
                Inl error \<Rightarrow> Inl error
              | Inr u \<Rightarrow> Inr r'))"

text \<open>
  The constructor: both arrays empty, then \<open>init\<close>. An error leaves no route. The
  constructor's first check, that the navigation library is a \<open>NavigationLibrary\<close>, is
  a check on the argument that \<open>newLegModel\<close> stands for, and has no counterpart here.
\<close>

definition new_RouteModel :: "string \<Rightarrow> LegModel_constructor \<Rightarrow> js_value \<Rightarrow> error + RouteModel" where
  "new_RouteModel DIRECT_SEGMENT_DIVIDER newLegModel routeString =
     init DIRECT_SEGMENT_DIVIDER newLegModel routeString
       \<lparr> rt_legCollection = [], rt_previousLegCollection = [] \<rparr>"

subsection \<open>Reassembling the route string\<close>

text \<open>
  One pass of the loop of \<open>_calculateRouteStringForLegs\<close>, for the index \<open>i\<close>. \<open>split\<close> never
  returns an empty array, so both \<open>_last\<close> and \<open>_first\<close> are strings there.
\<close>

definition calculateRouteStringForLegs_step :: "string list \<Rightarrow> string list \<Rightarrow> nat \<Rightarrow> string list" where
  "calculateRouteStringForLegs_step legRouteStrings directRouteSegments i =
     (let exitOfPreviousLeg =
            lodash_last (js_split (legRouteStrings ! (i - 1)) PROCEDURE_OR_AIRWAY_SEGMENT_DIVIDER);
          leg = legRouteStrings ! i;
          legEntry = lodash_first (js_split leg PROCEDURE_OR_AIRWAY_SEGMENT_DIVIDER)
      in if legEntry = exitOfPreviousLeg
         then (let indexOfPreviousLeg = length directRouteSegments - 1;
                   legRouteStringWithoutEntry = js_replace leg (js_String legEntry) []
               in directRouteSegments
                    [indexOfPreviousLeg :=
                       directRouteSegments ! indexOfPreviousLeg @ legRouteStringWithoutEntry])
         else directRouteSegments @ [leg])"

text \<open>
  With no leg at all, \<open>directRouteSegments\<close> is \<open>[undefined]\<close>, the loop does not run and
  \<open>join\<close> writes \<open>undefined\<close> as the empty string.
\<close>

definition calculateRouteStringForLegs :: "string \<Rightarrow> LegModel list \<Rightarrow> string" where
  "calculateRouteStringForLegs DIRECT_SEGMENT_DIVIDER legCollection =
     (let legRouteStrings = map leg_routeString legCollection
      in case lodash_first legRouteStrings of
           None \<Rightarrow> []
         | Some firstLeg \<Rightarrow>
             js_join (foldl (calculateRouteStringForLegs_step legRouteStrings)
                            [firstLeg] [1..<length legRouteStrings])
                     DIRECT_SEGMENT_DIVIDER)"

text \<open>The getters \<open>routeString\<close> and \<open>fullRouteString\<close>.\<close>

definition get_routeString :: "string \<Rightarrow> RouteModel \<Rightarrow> string" where
  "get_routeString DIRECT_SEGMENT_DIVIDER r =
     calculateRouteStringForLegs DIRECT_SEGMENT_DIVIDER (rt_legCollection r)"

definition get_fullRouteString :: "string \<Rightarrow> RouteModel \<Rightarrow> string" where
  "get_fullRouteString DIRECT_SEGMENT_DIVIDER r =
     (let pastAndPresentLegModels = rt_previousLegCollection r @ rt_legCollection r
      in calculateRouteStringForLegs DIRECT_SEGMENT_DIVIDER pastAndPresentLegModels)"

section \<open>The segmentation in the words of the specification\<close>

text \<open>
  The specification describes the segments of one chunk (the text between two direct-segment
  dividers) this way: the chunk is split on the procedure divider; the first three tokens
  form the first segment; the remaining tokens are grouped two at a time as NAME.EXIT
  pairs, and each pair is emitted as PREVIOUS_EXIT.NAME.EXIT, where PREVIOUS_EXIT is the
  exit fix of the segment before it. A last group of a single token is emitted the same
  way, as PREVIOUS_EXIT.NAME.
\<close>

fun spec_pairSegments :: "string \<Rightarrow> string list \<Rightarrow> string list" where
  "spec_pairSegments previousExit [] = []"
| "spec_pairSegments previousExit [name] = [previousExit @ ''.'' @ name]"
| "spec_pairSegments previousExit (name # exit # tokens) =
     (previousExit @ ''.'' @ name @ ''.'' @ exit) # spec_pairSegments exit tokens"

definition spec_segmentsOfChunk :: "string \<Rightarrow> string list" where
  "spec_segmentsOfChunk chunk =
     (let tokens = js_split chunk ''.'';
          firstThree = take 3 tokens
      in js_join firstThree ''.'' # spec_pairSegments (last firstThree) (drop 3 tokens))"

definition spec_divideRouteString :: "string \<Rightarrow> string \<Rightarrow> string list" where
  "spec_divideRouteString DIRECT_SEGMENT_DIVIDER s =
     concat (map spec_segmentsOfChunk (js_split s DIRECT_SEGMENT_DIVIDER))"

section \<open>Notions used to state the properties\<close>

text \<open>The first and the last token of a chunk: its entry and its exit.\<close>

definition entryOfChunk :: "string \<Rightarrow> string option" where
  "entryOfChunk chunk = lodash_first (js_split chunk PROCEDURE_OR_AIRWAY_SEGMENT_DIVIDER)"

definition exitOfChunk :: "string \<Rightarrow> string option" where
  "exitOfChunk chunk = lodash_last (js_split chunk PROCEDURE_OR_AIRWAY_SEGMENT_DIVIDER)"

text \<open>No chunk starts with the token that the chunk before it ends with.\<close>

fun distinctChunkBoundaries :: "string list \<Rightarrow> bool" where
  "distinctChunkBoundaries [] = True"
| "distinctChunkBoundaries [chunk] = True"
| "distinctChunkBoundaries (chunk # next # chunks) =
     (exitOfChunk chunk \<noteq> entryOfChunk next \<and> distinctChunkBoundaries (next # chunks))"

text \<open>
  The reassembly loop as a recursion over the legs that are left, with the leg before them
  and the direct segments collected so far.
\<close>

fun reassemble :: "string \<Rightarrow> string list \<Rightarrow> string list \<Rightarrow> string list" where
  "reassemble previousLeg directRouteSegments [] = directRouteSegments"
| "reassemble previousLeg directRouteSegments (leg # legs) =
     reassemble leg (calculateRouteStringForLegs_step [previousLeg, leg] directRouteSegments 1) legs"

text \<open>A function applied to every element of a list and the element before it, starting
  with a given first element: the shape of the inner loop of the segmentation, which reads
  \<open>segments[j - 1]\<close> and \<open>segments[j]\<close>.\<close>

fun mapAdjacent :: "('a \<Rightarrow> 'a \<Rightarrow> 'b) \<Rightarrow> 'a \<Rightarrow> 'a list \<Rightarrow> 'b list" where
  "mapAdjacent h x [] = []"
| "mapAdjacent h x (y # ys) = h x y # mapAdjacent h y ys"

text \<open>The calls of the monotonic-consumption property, and a run of them: a call that
  throws ends the run.\<close>

datatype skipCall = SkipToNextWaypoint | SkipToNextLeg

fun doCall :: "skipCall \<Rightarrow> RouteModel \<Rightarrow> error + RouteModel" where
  "doCall SkipToNextWaypoint r = skipToNextWaypoint r"
| "doCall SkipToNextLeg r = Inr (skipToNextLeg r)"

fun doCalls :: "skipCall list \<Rightarrow> RouteModel \<Rightarrow> error + RouteModel" where
  "doCalls [] r = Inr r"
| "doCalls (c # cs) r = (case doCall c r of Inl error \<Rightarrow> Inl error | Inr r' \<Rightarrow> doCalls cs r')"

text \<open>All the waypoints a leg owns, flown or not, and their number over both leg arrays of
  a route.\<close>

definition leg_allWaypoints :: "LegModel \<Rightarrow> WaypointModel list" where
  "leg_allWaypoints leg = leg_previousWaypoints leg @ leg_waypoints leg"

definition totalWaypointCount :: "RouteModel \<Rightarrow> nat" where
  "totalWaypointCount r =
     sum_list (map (\<lambda>leg. length (leg_allWaypoints leg))
                   (rt_previousLegCollection r @ rt_legCollection r))"

text \<open>A leg with its cursor back at its first waypoint: two legs that differ only in how far
  they have been flown are equal once rewound.\<close>

definition leg_rewound :: "LegModel \<Rightarrow> LegModel" where
  "leg_rewound leg = leg\<lparr> leg_waypoints := leg_allWaypoints leg, leg_previousWaypoints := [] \<rparr>"

text \<open>What one call does: it moves \<open>k\<close> legs, none or one, from the front of the remaining legs
  to the end of the flown ones, and never the last remaining leg.\<close>

definition movedLegs :: "nat \<Rightarrow> RouteModel \<Rightarrow> RouteModel \<Rightarrow> bool" where
  "movedLegs k r r' \<longleftrightarrow>
     k < length (rt_legCollection r)
     \<and> totalWaypointCount r' = totalWaypointCount r
     \<and> map leg_rewound (rt_previousLegCollection r') =
         map leg_rewound (rt_previousLegCollection r) @ take k (map leg_rewound (rt_legCollection r))
     \<and> map leg_rewound (rt_legCollection r') = drop k (map leg_rewound (rt_legCollection r))"

section \<open>Example data\<close>

definition fixWaypoint :: "string \<Rightarrow> WaypointModel" where
  "fixWaypoint fixName = WaypointModel_defaults\<lparr> wp_name := fixName, wp_positionModel := Some 0 \<rparr>"

text \<open>A vector waypoint that has been told to hold and must be flown over.\<close>

definition exampleVectorWaypoint :: WaypointModel where
  "exampleVectorWaypoint =
     updateWaypointWithHoldProps 2 ''left'' ''1min''
       (WaypointModel_defaults\<lparr> wp_name := ''#320'', wp_positionModel := Some 0,
                                 wp_isFlyOverWaypoint := True, wp_isVector := True \<rparr>)"

definition legOfFixes :: "string \<Rightarrow> string list \<Rightarrow> LegModel" where
  "legOfFixes segment fixNames =
     \<lparr> leg_routeString = segment, leg_waypoints = map fixWaypoint fixNames,
       leg_previousWaypoints = [], leg_isSidLeg = False, leg_isStarLeg = False,
       leg_getProcedureTopAltitude = - 1, leg_getProcedureBottomAltitude = - 1 \<rparr>"

text \<open>
  A navigation library for the examples: every token of a segment is a fix of its own, and
  a segment resolves to the leg over these fixes; the empty segment does not resolve.
\<close>

definition exampleNewLegModel :: LegModel_constructor where
  "exampleNewLegModel segment =
     (if segment = [] then Inl LegModelError
      else Inr (legOfFixes segment (js_split segment PROCEDURE_OR_AIRWAY_SEGMENT_DIVIDER)))"

definition exampleRoute :: RouteModel where
  "exampleRoute =
     \<lparr> rt_legCollection =
         [legOfFixes ''KSFO28R.OFFSH9.SXC'' [''KSFO28R'', ''WAMMY'', ''SXC''],
          legOfFixes ''SXC.V458.IPL'' [''SXC'', ''JLI'', ''IPL''],
          legOfFixes ''KLAS'' [''KLAS'']],
       rt_previousLegCollection = [] \<rparr>"

text \<open>A route with one leg whose procedure spans 8000 to 19000 feet.\<close>

definition exampleAltitudeRoute :: RouteModel where
  "exampleAltitudeRoute =
     \<lparr> rt_legCollection =
         [(legOfFixes ''DAG.KEPEC3.KLAS'' [''DAG'', ''KEPEC'', ''KLAS''])
            \<lparr> leg_isStarLeg := True, leg_getProcedureTopAltitude := 19000,
              leg_getProcedureBottomAltitude := 8000 \<rparr>],
       rt_previousLegCollection = [] \<rparr>"

text \<open>A STAR leg, a second STAR leg and a SID leg, and a navigation library that resolves
  exactly their three segments.\<close>

definition exampleStarLeg :: LegModel where
  "exampleStarLeg =
     (legOfFixes ''DAG.KEPEC3.KLAS'' [''DAG'', ''KEPEC'', ''KLAS''])\<lparr> leg_isStarLeg := True \<rparr>"

definition exampleOtherStarLeg :: LegModel where
  "exampleOtherStarLeg =
     (legOfFixes ''MLF.GRNPA1.KLAS'' [''MLF'', ''LUXOR'', ''KLAS''])\<lparr> leg_isStarLeg := True \<rparr>"

definition exampleSidLeg :: LegModel where
  "exampleSidLeg =
     (legOfFixes ''KLAS.COWBY6.GUP'' [''KLAS'', ''COWBY'', ''GUP''])\<lparr> leg_isSidLeg := True \<rparr>"

definition exampleProcedureLibrary :: LegModel_constructor where
  "exampleProcedureLibrary segment =
     (if segment = ''DAG.KEPEC3.KLAS'' then Inr exampleStarLeg
      else if segment = ''MLF.GRNPA1.KLAS'' then Inr exampleOtherStarLeg
      else if segment = ''KLAS.COWBY6.GUP'' then Inr exampleSidLeg
      else Inl LegModelError)"

text \<open>The routes that the example navigation library builds from
  \<open>KSFO28R.OFFSH9.SXC.V458.IPL\<close> and from \<open>DAG..DAG.KEPEC3.KLAS\<close>.\<close>

definition exampleChainedRoute :: RouteModel where
  "exampleChainedRoute =
     \<lparr> rt_legCollection =
         [legOfFixes ''KSFO28R.OFFSH9.SXC'' [''KSFO28R'', ''OFFSH9'', ''SXC''],
          legOfFixes ''SXC.V458.IPL'' [''SXC'', ''V458'', ''IPL'']],
       rt_previousLegCollection = [] \<rparr>"

definition exampleDirectThenStarRoute :: RouteModel where
  "exampleDirectThenStarRoute =
     \<lparr> rt_legCollection =
         [legOfFixes ''DAG'' [''DAG''],
          legOfFixes ''DAG.KEPEC3.KLAS'' [''DAG'', ''KEPEC3'', ''KLAS'']],
       rt_previousLegCollection = [] \<rparr>"

section \<open>WaypointModel: properties\<close>

lemma destroy_resets_listed_fields:
  "wp_name (destroy w) = [] \<and> wp_turnDirection (destroy w) = [] \<and> wp_legLength (destroy w) = []
   \<and> wp_positionModel (destroy w) = None \<and> isHold (destroy w) = False
   \<and> speedMaximum (destroy w) = - 1 \<and> speedMinimum (destroy w) = - 1
   \<and> altitudeMaximum (destroy w) = - 1 \<and> altitudeMinimum (destroy w) = - 1
   \<and> timer (destroy w) = - 999"
  by (simp add: destroy_def)

lemma destroy_keeps_other_fields:
  "wp_holdingPatternInboundHeading (destroy w) = wp_holdingPatternInboundHeading w
   \<and> wp_isFlyOverWaypoint (destroy w) = wp_isFlyOverWaypoint w
   \<and> wp_isVector (destroy w) = wp_isVector w"
  by (simp add: destroy_def)

text \<open>
  C9. After \<open>destroy()\<close> every mutable field should hold its default. On the example vector
  waypoint (a fly-over vector waypoint turned into a hold with inbound heading 2) the
  flags \<open>_isVector\<close> and \<open>_isFlyOverWaypoint\<close> are still set after \<open>destroy()\<close> and the
  inbound heading is still 2, not the default \<open>-1\<close>: the waypoint is not the constructor's
  default waypoint, although every field that \<open>destroy()\<close> assigns is reset.
\<close>

theorem destroy_leaves_flags_and_heading:
  "wp_isVector (destroy exampleVectorWaypoint) = True
   \<and> wp_isFlyOverWaypoint (destroy exampleVectorWaypoint) = True
   \<and> wp_holdingPatternInboundHeading (destroy exampleVectorWaypoint) = 2
   \<and> wp_holdingPatternInboundHeading WaypointModel_defaults = - 1
   \<and> destroy exampleVectorWaypoint \<noteq> WaypointModel_defaults
   \<and> wp_positionModel (destroy exampleVectorWaypoint) = None
   \<and> wp_name (destroy exampleVectorWaypoint) = []"
  by (simp add: destroy_def exampleVectorWaypoint_def updateWaypointWithHoldProps_def
      WaypointModel_defaults_def)

text \<open>
  C10, as amended. The \<open>name\<close> setter never takes the value it stores from its argument:
  the outcome of the call is the same for any two arguments. When the identifier \<open>name\<close>
  is bound nowhere, the call throws a ReferenceError and leaves the waypoint, hence its
  \<open>_name\<close>, as it was. When the global scope binds \<open>name\<close>, the call throws nothing and
  \<open>_name\<close> becomes the value bound there.
\<close>

theorem set_name_outcome:
  "set_name globalName nameUpdate w = set_name globalName otherUpdate w
   \<and> (globalName = None \<longrightarrow>
         set_name globalName nameUpdate w = (Some ReferenceError, w)
         \<and> wp_name (snd (set_name globalName nameUpdate w)) = wp_name w)
   \<and> (\<forall>bound. globalName = Some bound \<longrightarrow>
         set_name globalName nameUpdate w = (None, w\<lparr> wp_name := bound \<rparr>)
         \<and> wp_name (snd (set_name globalName nameUpdate w)) = bound)"
  by (simp add: set_name_def)

text \<open>
  With no binding of \<open>name\<close>, setting the name of the example waypoint \<open>#320\<close> to \<open>NEWNAME\<close>
  throws and changes nothing; with \<open>name\<close> bound to the empty string, as in a browser
  window that was given no name, the call empties \<open>_name\<close>.
\<close>

theorem set_name_outcome_witness:
  "set_name None ''NEWNAME'' exampleVectorWaypoint = (Some ReferenceError, exampleVectorWaypoint)
   \<and> wp_name (snd (set_name None ''NEWNAME'' exampleVectorWaypoint)) = ''#320''
   \<and> set_name (Some []) ''NEWNAME'' exampleVectorWaypoint
       = (None, exampleVectorWaypoint\<lparr> wp_name := [] \<rparr>)
   \<and> wp_name (snd (set_name (Some []) ''NEWNAME'' exampleVectorWaypoint)) = []"
proof -
  have stored: "wp_name exampleVectorWaypoint = ''#320''"
    by (simp add: exampleVectorWaypoint_def updateWaypointWithHoldProps_def)
  from set_name_outcome[of None "''NEWNAME''" exampleVectorWaypoint "''NEWNAME''"]
    set_name_outcome[of "Some []" "''NEWNAME''" exampleVectorWaypoint "''NEWNAME''"]
    stored
  show ?thesis by simp
qed

text \<open>
  C10 as stated fails: with the global \<open>name\<close> bound to \<open>GLOBAL\<close>, setting the name of the
  example waypoint \<open>#320\<close> to \<open>NEWNAME\<close> throws no ReferenceError, and \<open>_name\<close> does not
  remain \<open>#320\<close>: it becomes \<open>GLOBAL\<close>.
\<close>

theorem set_name_with_global_binding_counterexample:
  "fst (set_name (Some ''GLOBAL'') ''NEWNAME'' exampleVectorWaypoint) = None
   \<and> fst (set_name (Some ''GLOBAL'') ''NEWNAME'' exampleVectorWaypoint) \<noteq> Some ReferenceError
   \<and> wp_name exampleVectorWaypoint = ''#320''
   \<and> wp_name (snd (set_name (Some ''GLOBAL'') ''NEWNAME'' exampleVectorWaypoint)) = ''GLOBAL''
   \<and> wp_name (snd (set_name (Some ''GLOBAL'') ''NEWNAME'' exampleVectorWaypoint))
       \<noteq> wp_name exampleVectorWaypoint"
  by (simp add: set_name_def exampleVectorWaypoint_def updateWaypointWithHoldProps_def)

section \<open>RouteModel: altitudes\<close>

lemma Math_max_Nil_iff: "Math_max xs = NegInfinity \<longleftrightarrow> xs = []"
  by (cases xs) (auto split: js_number.splits)

lemma Math_min_Nil_iff: "Math_min xs = Infinity \<longleftrightarrow> xs = []"
  by (cases xs) (auto split: js_number.splits)

lemma Math_min_Min: "xs \<noteq> [] \<Longrightarrow> Math_min xs = Num (Min (set xs))"
proof (induction xs)
  case Nil
  then show ?case by simp
next
  case (Cons x xs)
  show ?case
  proof (cases "xs = []")
    case True
    then show ?thesis by simp
  next
    case False
    with Cons show ?thesis by (simp add: min_def)
  qed
qed

lemma Math_max_Max: "xs \<noteq> [] \<Longrightarrow> Math_max xs = Num (Max (set xs))"
proof (induction xs)
  case Nil
  then show ?case by simp
next
  case (Cons x xs)
  show ?case
  proof (cases "xs = []")
    case True
    then show ?thesis by simp
  next
    case False
    with Cons show ?thesis by (simp add: max_def)
  qed
qed

lemma getBottomAltitude_is_min:
  "getBottomAltitude r =
     Math_min (filter (\<lambda>a. a \<noteq> INVALID_NUMBER)
                 (map leg_getProcedureBottomAltitude (rt_legCollection r)))"
  by (simp add: getBottomAltitude_def lodash_without_def)

lemma getTopAltitude_always: "getTopAltitude r = NegInfinity"
  by (simp add: getTopAltitude_def this_legCollection_def)

text \<open>
  C6. \<open>getBottomAltitude\<close> is the minimum of the legs' bottom altitudes without the
  sentinel (lemma \<open>getBottomAltitude_is_min\<close>), but \<open>getTopAltitude\<close> is not the maximum
  of the legs' top altitudes: on the example route, whose only leg has the top altitude
  19000, it returns \<open>-Infinity\<close>, where the maximum over the legs is 19000.
\<close>

theorem getTopAltitude_ignores_the_legs:
  "getTopAltitude exampleAltitudeRoute = NegInfinity
   \<and> Math_max (map leg_getProcedureTopAltitude (rt_legCollection exampleAltitudeRoute)) = Num 19000
   \<and> getBottomAltitude exampleAltitudeRoute = Num 8000"
  by (simp add: getTopAltitude_def this_legCollection_def getBottomAltitude_def
      lodash_without_def exampleAltitudeRoute_def legOfFixes_def INVALID_NUMBER_def)

section \<open>RouteModel: replacing procedures\<close>

lemma findIndex_from_none:
  "lodash_findIndex_from p i xs = - 1 \<longleftrightarrow> (\<forall>x \<in> set xs. \<not> p x)" if "0 \<le> i"
  using that
proof (induction xs arbitrary: i)
  case Nil
  then show ?case by simp
next
  case (Cons x xs)
  have "0 \<le> i + 1" using Cons.prems by simp
  from Cons.IH[OF this] Cons.prems show ?case by auto
qed

lemma findIndex_from_first:
  "\<forall>b \<in> set before. \<not> p b \<Longrightarrow> p x \<Longrightarrow>
   lodash_findIndex_from p i (before @ x # after) = i + int (length before)"
  by (induction before arbitrary: i) auto

lemma findIndex_none: "lodash_findIndex xs p = INVALID_INDEX \<longleftrightarrow> (\<forall>x \<in> set xs. \<not> p x)"
  by (simp add: lodash_findIndex_def INVALID_INDEX_def findIndex_from_none)

lemma findIndex_first:
  "\<forall>b \<in> set before. \<not> p b \<Longrightarrow> p x \<Longrightarrow>
   lodash_findIndex (before @ x # after) p = int (length before)"
  by (simp add: lodash_findIndex_def findIndex_from_first)

lemma findIndex_first_not_invalid:
  "\<forall>b \<in> set before. \<not> p b \<Longrightarrow> p x \<Longrightarrow>
   lodash_findIndex (before @ x # after) p \<noteq> INVALID_INDEX"
  by (simp add: findIndex_first INVALID_INDEX_def)

text \<open>
  C4. When the construction of the new leg fails, \<open>replaceArrivalProcedure\<close> and
  \<open>replaceDepartureProcedure\<close> return false and the route is the one before the call. When
  it succeeds they return true and leave the flown legs alone; the new leg takes the
  place of the first STAR (SID) leg, at the same index, when there is one, and is appended
  (arrival) or put in front (departure) when there is none.
\<close>

theorem replace_procedure_result:
  "(newLegModel routeString = Inl e \<longrightarrow>
      replaceArrivalProcedure newLegModel routeString r = (False, r)
      \<and> replaceDepartureProcedure newLegModel routeString r = (False, r))
   \<and> (newLegModel routeString = Inr leg \<longrightarrow>
        fst (replaceArrivalProcedure newLegModel routeString r) = True
        \<and> fst (replaceDepartureProcedure newLegModel routeString r) = True
        \<and> rt_previousLegCollection (snd (replaceArrivalProcedure newLegModel routeString r))
            = rt_previousLegCollection r
        \<and> rt_previousLegCollection (snd (replaceDepartureProcedure newLegModel routeString r))
            = rt_previousLegCollection r
        \<and> ((\<forall>l \<in> set (rt_legCollection r). \<not> leg_isStarLeg l) \<longrightarrow>
              rt_legCollection (snd (replaceArrivalProcedure newLegModel routeString r))
                = rt_legCollection r @ [leg])
        \<and> ((\<forall>l \<in> set (rt_legCollection r). \<not> leg_isSidLeg l) \<longrightarrow>
              rt_legCollection (snd (replaceDepartureProcedure newLegModel routeString r))
                = leg # rt_legCollection r)
        \<and> (\<forall>before old after.
              rt_legCollection r = before @ old # after
              \<and> (\<forall>l \<in> set before. \<not> leg_isStarLeg l) \<and> leg_isStarLeg old \<longrightarrow>
              rt_legCollection (snd (replaceArrivalProcedure newLegModel routeString r))
                = before @ leg # after)
        \<and> (\<forall>before old after.
              rt_legCollection r = before @ old # after
              \<and> (\<forall>l \<in> set before. \<not> leg_isSidLeg l) \<and> leg_isSidLeg old \<longrightarrow>
              rt_legCollection (snd (replaceDepartureProcedure newLegModel routeString r))
                = before @ leg # after))"
proof (intro conjI impI allI)
  assume "newLegModel routeString = Inl e"
  then show "replaceArrivalProcedure newLegModel routeString r = (False, r)"
    and "replaceDepartureProcedure newLegModel routeString r = (False, r)"
    by (simp_all add: replaceArrivalProcedure_def replaceDepartureProcedure_def)
next
  assume ok: "newLegModel routeString = Inr leg"
  show "fst (replaceArrivalProcedure newLegModel routeString r) = True"
    and "fst (replaceDepartureProcedure newLegModel routeString r) = True"
    and "rt_previousLegCollection (snd (replaceArrivalProcedure newLegModel routeString r))
            = rt_previousLegCollection r"
    and "rt_previousLegCollection (snd (replaceDepartureProcedure newLegModel routeString r))
            = rt_previousLegCollection r"
    using ok by (simp_all add: replaceArrivalProcedure_def replaceDepartureProcedure_def Let_def)
  {
    assume "\<forall>l \<in> set (rt_legCollection r). \<not> leg_isStarLeg l"
    then have "lodash_findIndex (rt_legCollection r) leg_isStarLeg = INVALID_INDEX"
      by (simp add: findIndex_none)
    then show "rt_legCollection (snd (replaceArrivalProcedure newLegModel routeString r))
                = rt_legCollection r @ [leg]"
      using ok by (simp add: replaceArrivalProcedure_def)
  }
  {
    assume "\<forall>l \<in> set (rt_legCollection r). \<not> leg_isSidLeg l"
    then have "lodash_findIndex (rt_legCollection r) leg_isSidLeg = INVALID_INDEX"
      by (simp add: findIndex_none)
    then show "rt_legCollection (snd (replaceDepartureProcedure newLegModel routeString r))
                = leg # rt_legCollection r"
      using ok by (simp add: replaceDepartureProcedure_def)
  }
  {
    fix before old after
    assume h: "rt_legCollection r = before @ old # after
              \<and> (\<forall>l \<in> set before. \<not> leg_isStarLeg l) \<and> leg_isStarLeg old"
    then have "lodash_findIndex (rt_legCollection r) leg_isStarLeg = int (length before)"
      and "lodash_findIndex (rt_legCollection r) leg_isStarLeg \<noteq> INVALID_INDEX"
      by (simp_all add: findIndex_first INVALID_INDEX_def)
    then show "rt_legCollection (snd (replaceArrivalProcedure newLegModel routeString r))
                = before @ leg # after"
      using ok h by (simp add: replaceArrivalProcedure_def)
  }
  {
    fix before old after
    assume h: "rt_legCollection r = before @ old # after
              \<and> (\<forall>l \<in> set before. \<not> leg_isSidLeg l) \<and> leg_isSidLeg old"
    then have "lodash_findIndex (rt_legCollection r) leg_isSidLeg = int (length before)"
      and "lodash_findIndex (rt_legCollection r) leg_isSidLeg \<noteq> INVALID_INDEX"
      by (simp_all add: findIndex_first INVALID_INDEX_def)
    then show "rt_legCollection (snd (replaceDepartureProcedure newLegModel routeString r))
                = before @ leg # after"
      using ok h by (simp add: replaceDepartureProcedure_def)
  }
qed

text \<open>
  The example of the specification: on a route without a STAR leg the new leg is appended;
  a second call with another STAR replaces that leg where it stands; a departure
  procedure is put in front; a route string that does not resolve changes nothing.
\<close>

theorem replace_procedure_result_witness:
  "replaceArrivalProcedure exampleProcedureLibrary ''DAG.KEPEC3.KLAS'' exampleRoute
     = (True, exampleRoute\<lparr> rt_legCollection := rt_legCollection exampleRoute @ [exampleStarLeg] \<rparr>)
   \<and> replaceArrivalProcedure exampleProcedureLibrary ''MLF.GRNPA1.KLAS''
         (exampleRoute\<lparr> rt_legCollection := rt_legCollection exampleRoute @ [exampleStarLeg] \<rparr>)
     = (True, exampleRoute\<lparr> rt_legCollection := rt_legCollection exampleRoute @ [exampleOtherStarLeg] \<rparr>)
   \<and> replaceDepartureProcedure exampleProcedureLibrary ''KLAS.COWBY6.GUP'' exampleRoute
     = (True, exampleRoute\<lparr> rt_legCollection := exampleSidLeg # rt_legCollection exampleRoute \<rparr>)
   \<and> replaceArrivalProcedure exampleProcedureLibrary ''DAG.NOSUCH1.KLAS'' exampleRoute
     = (False, exampleRoute)
   \<and> replaceDepartureProcedure exampleProcedureLibrary ''DAG.NOSUCH1.KLAS'' exampleRoute
     = (False, exampleRoute)"
proof -
  let ?r1 = "exampleRoute\<lparr> rt_legCollection := rt_legCollection exampleRoute @ [exampleStarLeg] \<rparr>"
  have noStar: "\<forall>l \<in> set (rt_legCollection exampleRoute). \<not> leg_isStarLeg l"
    and noSid: "\<forall>l \<in> set (rt_legCollection exampleRoute). \<not> leg_isSidLeg l"
    by (simp_all add: exampleRoute_def legOfFixes_def)
  have star: "leg_isStarLeg exampleStarLeg"
    by (simp add: exampleStarLeg_def)
  have a: "exampleProcedureLibrary ''DAG.KEPEC3.KLAS'' = Inr exampleStarLeg"
    and b: "exampleProcedureLibrary ''MLF.GRNPA1.KLAS'' = Inr exampleOtherStarLeg"
    and c: "exampleProcedureLibrary ''KLAS.COWBY6.GUP'' = Inr exampleSidLeg"
    and d: "exampleProcedureLibrary ''DAG.NOSUCH1.KLAS'' = Inl LegModelError"
    by (simp_all add: exampleProcedureLibrary_def)
  note t1 = replace_procedure_result
    [of exampleProcedureLibrary "''DAG.KEPEC3.KLAS''" LegModelError exampleRoute exampleStarLeg]
  note t2 = replace_procedure_result
    [of exampleProcedureLibrary "''MLF.GRNPA1.KLAS''" LegModelError ?r1 exampleOtherStarLeg]
  note t3 = replace_procedure_result
    [of exampleProcedureLibrary "''KLAS.COWBY6.GUP''" LegModelError exampleRoute exampleSidLeg]
  note t4 = replace_procedure_result
    [of exampleProcedureLibrary "''DAG.NOSUCH1.KLAS''" LegModelError exampleRoute exampleSidLeg]
  have "rt_legCollection (snd (replaceArrivalProcedure exampleProcedureLibrary ''DAG.KEPEC3.KLAS'' exampleRoute))
          = rt_legCollection exampleRoute @ [exampleStarLeg]"
    and "fst (replaceArrivalProcedure exampleProcedureLibrary ''DAG.KEPEC3.KLAS'' exampleRoute) = True"
    and "rt_previousLegCollection (snd (replaceArrivalProcedure exampleProcedureLibrary ''DAG.KEPEC3.KLAS'' exampleRoute))
          = rt_previousLegCollection exampleRoute"
    using t1 a noStar by simp_all
  then have g1: "replaceArrivalProcedure exampleProcedureLibrary ''DAG.KEPEC3.KLAS'' exampleRoute
     = (True, ?r1)"
    by (cases "replaceArrivalProcedure exampleProcedureLibrary ''DAG.KEPEC3.KLAS'' exampleRoute") simp
  have "rt_legCollection ?r1 = rt_legCollection exampleRoute @ exampleStarLeg # []
        \<and> (\<forall>l \<in> set (rt_legCollection exampleRoute). \<not> leg_isStarLeg l)
        \<and> leg_isStarLeg exampleStarLeg"
    using noStar star by simp
  with t2 b have "rt_legCollection (snd (replaceArrivalProcedure exampleProcedureLibrary ''MLF.GRNPA1.KLAS'' ?r1))
          = rt_legCollection exampleRoute @ exampleOtherStarLeg # []"
    and "fst (replaceArrivalProcedure exampleProcedureLibrary ''MLF.GRNPA1.KLAS'' ?r1) = True"
    and "rt_previousLegCollection (snd (replaceArrivalProcedure exampleProcedureLibrary ''MLF.GRNPA1.KLAS'' ?r1))
          = rt_previousLegCollection ?r1"
    by blast+
  then have g2: "replaceArrivalProcedure exampleProcedureLibrary ''MLF.GRNPA1.KLAS'' ?r1
     = (True, exampleRoute\<lparr> rt_legCollection := rt_legCollection exampleRoute @ [exampleOtherStarLeg] \<rparr>)"
    by (cases "replaceArrivalProcedure exampleProcedureLibrary ''MLF.GRNPA1.KLAS'' ?r1") simp
  have "rt_legCollection (snd (replaceDepartureProcedure exampleProcedureLibrary ''KLAS.COWBY6.GUP'' exampleRoute))
          = exampleSidLeg # rt_legCollection exampleRoute"
    and "fst (replaceDepartureProcedure exampleProcedureLibrary ''KLAS.COWBY6.GUP'' exampleRoute) = True"
    and "rt_previousLegCollection (snd (replaceDepartureProcedure exampleProcedureLibrary ''KLAS.COWBY6.GUP'' exampleRoute))
          = rt_previousLegCollection exampleRoute"
    using t3 c noSid by simp_all
  then have g3: "replaceDepartureProcedure exampleProcedureLibrary ''KLAS.COWBY6.GUP'' exampleRoute
     = (True, exampleRoute\<lparr> rt_legCollection := exampleSidLeg # rt_legCollection exampleRoute \<rparr>)"
    by (cases "replaceDepartureProcedure exampleProcedureLibrary ''KLAS.COWBY6.GUP'' exampleRoute") simp
  have g4: "replaceArrivalProcedure exampleProcedureLibrary ''DAG.NOSUCH1.KLAS'' exampleRoute
     = (False, exampleRoute)"
    and g5: "replaceDepartureProcedure exampleProcedureLibrary ''DAG.NOSUCH1.KLAS'' exampleRoute
     = (False, exampleRoute)"
    using t4 d by simp_all
  from g1 g2 g3 g4 g5 show ?thesis by simp
qed

section \<open>RouteModel: construction\<close>

lemma foldl_append_concat:
  "foldl (\<lambda>acc x. acc @ f x) a xs = a @ concat (map f xs)"
  by (induction xs arbitrary: a) simp_all

lemma waypoints_concat: "waypoints r = concat (map leg_waypoints (rt_legCollection r))"
  by (simp add: waypoints_def foldl_append_concat)

text \<open>
  C5. When the legs built from a route string hold fewer than two waypoints in total,
  \<open>init\<close>, and with it the constructor, throws a TypeError: no route is produced.
\<close>

theorem init_requires_two_waypoints:
  assumes "generateLegsFromRouteString DIRECT_SEGMENT_DIVIDER newLegModel routeString = Inr legs"
    and "length (concat (map leg_waypoints legs)) < 2"
  shows "init DIRECT_SEGMENT_DIVIDER newLegModel routeString r = Inl TypeError
         \<and> new_RouteModel DIRECT_SEGMENT_DIVIDER newLegModel routeString = Inl TypeError"
  using assms
  by (simp add: init_def new_RouteModel_def verifyRouteContainsMultipleWaypoints_def
      waypoints_concat)

lemma init_result_has_two_waypoints:
  "init DIRECT_SEGMENT_DIVIDER newLegModel routeString r = Inr r' \<Longrightarrow> 2 \<le> length (waypoints r')"
  by (auto simp: init_def verifyRouteContainsMultipleWaypoints_def Let_def
      split: sum.splits if_splits)

text \<open>The route string \<open>KLAS\<close> expands to one leg with one waypoint, and is refused.\<close>

theorem init_requires_two_waypoints_witness:
  "generateLegsFromRouteString ''..'' exampleNewLegModel (JSString ''KLAS'')
     = Inr [legOfFixes ''KLAS'' [''KLAS'']]
   \<and> length (concat (map leg_waypoints [legOfFixes ''KLAS'' [''KLAS'']])) = 1
   \<and> new_RouteModel ''..'' exampleNewLegModel (JSString ''KLAS'') = Inl TypeError"
proof -
  have g: "generateLegsFromRouteString ''..'' exampleNewLegModel (JSString ''KLAS'')
     = Inr [legOfFixes ''KLAS'' [''KLAS'']]"
    by code_simp
  have l: "length (concat (map leg_waypoints [legOfFixes ''KLAS'' [''KLAS'']])) = 1"
    by (simp add: legOfFixes_def)
  then have "length (concat (map leg_waypoints [legOfFixes ''KLAS'' [''KLAS'']])) < 2"
    by simp
  from init_requires_two_waypoints[OF g this] g l show ?thesis by simp
qed

section \<open>RouteModel: rejected route strings\<close>

lemma js_indexOf_from_char:
  "0 \<le> i \<Longrightarrow> js_indexOf_from [c] i s = - 1 \<longleftrightarrow> c \<notin> set s"
proof (induction s arbitrary: i)
  case Nil
  then show ?case by simp
next
  case (Cons a s)
  have "0 \<le> i + 1" using Cons.prems by simp
  from Cons.IH[OF this] Cons.prems show ?case by auto
qed

lemma indexOf_space: "js_indexOf s '' '' \<noteq> INVALID_INDEX \<longleftrightarrow> CHR '' '' \<in> set s"
  by (simp add: js_indexOf_def INVALID_INDEX_def js_indexOf_from_char)

lemma divide_fails_iff:
  "(\<exists>e. divideRouteStringIntoSegments DIRECT_SEGMENT_DIVIDER routeString = Inl e)
   \<longleftrightarrow> \<not> lodash_isString routeString \<or> (\<exists>s. routeString = JSString s \<and> CHR '' '' \<in> set s)"
  by (cases routeString) (simp_all add: divideRouteStringIntoSegments_def indexOf_space)

text \<open>
  C7, as amended. \<open>_divideRouteStringIntoSegments\<close> throws a TypeError whenever its input
  is not a string or is a string that contains a space character (U+0020), and then the
  constructor throws too, so that no route is built from such an input. Only the space is
  looked for: other whitespace is not refused (see the counterexample below).
\<close>

theorem divide_rejects_non_strings_and_spaces:
  assumes "\<not> lodash_isString routeString \<or> (\<exists>s. routeString = JSString s \<and> CHR '' '' \<in> set s)"
  shows "divideRouteStringIntoSegments DIRECT_SEGMENT_DIVIDER routeString = Inl TypeError
         \<and> new_RouteModel DIRECT_SEGMENT_DIVIDER newLegModel routeString = Inl TypeError"
proof -
  have "divideRouteStringIntoSegments DIRECT_SEGMENT_DIVIDER routeString = Inl TypeError"
    using assms
    by (cases routeString) (auto simp: divideRouteStringIntoSegments_def indexOf_space)
  then show ?thesis
    by (simp add: new_RouteModel_def init_def generateLegsFromRouteString_def)
qed

text \<open>A number and a route string with a space are both refused.\<close>

theorem divide_rejects_non_strings_and_spaces_witness:
  "divideRouteStringIntoSegments ''..'' (JSNumber 5) = Inl TypeError
   \<and> new_RouteModel ''..'' exampleNewLegModel (JSNumber 5) = Inl TypeError
   \<and> divideRouteStringIntoSegments ''..'' (JSString ''KSFO28R.OFFSH9.SXC IPL'') = Inl TypeError
   \<and> new_RouteModel ''..'' exampleNewLegModel (JSString ''KSFO28R.OFFSH9.SXC IPL'') = Inl TypeError"
proof -
  have a: "\<not> lodash_isString (JSNumber 5) \<or> (\<exists>s. JSNumber 5 = JSString s \<and> CHR '' '' \<in> set s)"
    by simp
  have b: "\<not> lodash_isString (JSString ''KSFO28R.OFFSH9.SXC IPL'')
           \<or> (\<exists>s. JSString ''KSFO28R.OFFSH9.SXC IPL'' = JSString s \<and> CHR '' '' \<in> set s)"
    by simp
  from divide_rejects_non_strings_and_spaces[OF a, of "''..''" exampleNewLegModel]
    divide_rejects_non_strings_and_spaces[OF b, of "''..''" exampleNewLegModel]
  show ?thesis by simp
qed

text \<open>
  C7 as stated fails: a route string with a tab (whitespace) after \<open>DAG\<close> is divided into
  two segments without an error, and with the example navigation library a route is
  constructed from it.
\<close>

theorem divide_accepts_tab_counterexample:
  "CHR 0x09 \<in> set (''DAG'' @ [CHR 0x09] @ ''..KLAS'')
   \<and> divideRouteStringIntoSegments ''..'' (JSString (''DAG'' @ [CHR 0x09] @ ''..KLAS''))
       = Inr [''DAG'' @ [CHR 0x09], ''KLAS'']
   \<and> new_RouteModel ''..'' exampleNewLegModel (JSString (''DAG'' @ [CHR 0x09] @ ''..KLAS''))
       = Inr \<lparr> rt_legCollection =
                [legOfFixes (''DAG'' @ [CHR 0x09]) [''DAG'' @ [CHR 0x09]],
                 legOfFixes ''KLAS'' [''KLAS'']],
              rt_previousLegCollection = [] \<rparr>"
  by code_simp

section \<open>RouteModel: skipping to a named waypoint\<close>

lemma hasWaypoint_loop_iff:
  "hasWaypoint_loop waypointName legs \<longleftrightarrow> (\<exists>l \<in> set legs. leg_hasWaypoint waypointName l)"
  by (induction legs) auto

text \<open>What the leg's \<open>skipToWaypoint\<close> does when the name is absent and when it is
  present.\<close>

lemma leg_skipToWaypoint_absent:
  "\<not> leg_hasWaypoint waypointName leg \<Longrightarrow> leg_skipToWaypoint waypointName leg = (False, leg)"
proof -
  assume "\<not> leg_hasWaypoint waypointName leg"
  then have "\<forall>w \<in> set (leg_waypoints leg). \<not> wp_name w = waypointName"
    by (auto simp: leg_hasWaypoint_def)
  then have "lodash_findIndex (leg_waypoints leg) (\<lambda>w. wp_name w = waypointName) = INVALID_INDEX"
    by (simp add: findIndex_none)
  then show ?thesis by (simp add: leg_skipToWaypoint_def)
qed

lemma leg_skipToWaypoint_present:
  assumes "leg_waypoints leg = ws @ w # ws'"
    and "\<forall>v \<in> set ws. wp_name v \<noteq> waypointName"
    and "wp_name w = waypointName"
  shows "leg_skipToWaypoint waypointName leg =
           (True, leg\<lparr> leg_waypoints := w # ws',
                        leg_previousWaypoints := leg_previousWaypoints leg @ ws \<rparr>)"
proof -
  have "lodash_findIndex (leg_waypoints leg) (\<lambda>w. wp_name w = waypointName) = int (length ws)"
    using assms by (simp add: findIndex_first)
  then show ?thesis using assms(1) by (simp add: leg_skipToWaypoint_def INVALID_INDEX_def)
qed

lemma leg_hasWaypoint_split:
  assumes "leg_hasWaypoint waypointName leg"
  obtains ws w ws' where "leg_waypoints leg = ws @ w # ws'"
    and "\<forall>v \<in> set ws. wp_name v \<noteq> waypointName" and "wp_name w = waypointName"
proof -
  from assms have "\<exists>w \<in> set (leg_waypoints leg). wp_name w = waypointName"
    by (auto simp: leg_hasWaypoint_def)
  from split_list_first_prop[OF this] that show thesis by blast
qed

lemma leg_skipToWaypoint_succeeds:
  assumes "leg_hasWaypoint waypointName leg"
  shows "fst (leg_skipToWaypoint waypointName leg) = True"
    and "leg_hasWaypoint waypointName (snd (leg_skipToWaypoint waypointName leg))"
    and "leg_skipToWaypoint waypointName (snd (leg_skipToWaypoint waypointName leg))
           = (True, snd (leg_skipToWaypoint waypointName leg))"
    and "\<exists>w. leg_currentWaypoint (snd (leg_skipToWaypoint waypointName leg)) = Some w
             \<and> wp_name w = waypointName"
    and "leg_allWaypoints (snd (leg_skipToWaypoint waypointName leg)) = leg_allWaypoints leg"
proof -
  from assms obtain ws w ws' where split: "leg_waypoints leg = ws @ w # ws'"
    "\<forall>v \<in> set ws. wp_name v \<noteq> waypointName" "wp_name w = waypointName"
    by (rule leg_hasWaypoint_split)
  let ?leg' = "leg\<lparr> leg_waypoints := w # ws',
                     leg_previousWaypoints := leg_previousWaypoints leg @ ws \<rparr>"
  have first: "leg_skipToWaypoint waypointName leg = (True, ?leg')"
    by (rule leg_skipToWaypoint_present[OF split])
  have "leg_waypoints ?leg' = [] @ w # ws'" by simp
  from leg_skipToWaypoint_present[OF this _ split(3)]
  have again: "leg_skipToWaypoint waypointName ?leg' = (True, ?leg')" by simp
  show "fst (leg_skipToWaypoint waypointName leg) = True" by (simp add: first)
  show "leg_hasWaypoint waypointName (snd (leg_skipToWaypoint waypointName leg))"
    by (simp add: first leg_hasWaypoint_def split(3))
  show "leg_skipToWaypoint waypointName (snd (leg_skipToWaypoint waypointName leg))
           = (True, snd (leg_skipToWaypoint waypointName leg))"
    by (simp add: first again)
  show "\<exists>w. leg_currentWaypoint (snd (leg_skipToWaypoint waypointName leg)) = Some w
             \<and> wp_name w = waypointName"
    by (simp add: first leg_currentWaypoint_def split(3))
  show "leg_allWaypoints (snd (leg_skipToWaypoint waypointName leg)) = leg_allWaypoints leg"
    by (simp add: first leg_allWaypoints_def split(1))
qed

lemma skipToWaypointName_absent:
  "\<not> hasWaypoint waypointName r \<Longrightarrow> skipToWaypointName waypointName r = Inr (False, r)"
  by (simp add: skipToWaypointName_def)

lemma skipToWaypointName_present:
  assumes legs: "rt_legCollection r = before @ leg # after"
    and before: "\<forall>l \<in> set before. \<not> leg_hasWaypoint waypointName l"
    and leg: "leg_hasWaypoint waypointName leg"
  shows "skipToWaypointName waypointName r =
           Inr (True, \<lparr> rt_legCollection = snd (leg_skipToWaypoint waypointName leg) # after,
                        rt_previousLegCollection = rt_previousLegCollection r @ before \<rparr>)"
proof -
  let ?leg' = "snd (leg_skipToWaypoint waypointName leg)"
  have has: "hasWaypoint waypointName r"
    using legs leg by (auto simp: hasWaypoint_def hasWaypoint_loop_iff)
  note skip = leg_skipToWaypoint_succeeds[OF leg]
  show ?thesis
  proof (cases before)
    case Nil
    have cur: "currentLeg r = Inr leg"
      using legs Nil by (simp add: currentLeg_def)
    have idx: "lodash_findIndex (?leg' # after) (leg_hasWaypoint waypointName) = 0"
      using findIndex_first[of "[]" "leg_hasWaypoint waypointName" ?leg' after] skip(2)
      by simp
    have pair: "leg_skipToWaypoint waypointName ?leg' = (True, ?leg')"
      by (rule skip(3))
    show ?thesis
      using has cur leg legs Nil idx pair
      by (simp add: skipToWaypointName_def js_splice0_def currentLeg_def)
  next
    case (Cons b bs)
    have cur: "currentLeg r = Inr b"
      using legs Cons by (simp add: currentLeg_def)
    have nb: "\<not> leg_hasWaypoint waypointName b"
      using before Cons by simp
    have idx: "lodash_findIndex (rt_legCollection r) (leg_hasWaypoint waypointName)
                 = int (length before)"
      using legs before leg by (simp add: findIndex_first)
    obtain leg3 where pair: "leg_skipToWaypoint waypointName leg = (True, leg3)"
      using skip(1) by (cases "leg_skipToWaypoint waypointName leg") simp
    show ?thesis
      using has cur nb idx legs
      by (simp add: skipToWaypointName_def js_splice0_def currentLeg_def pair)
  qed
qed

text \<open>
  C3. When no leg of the route has a waypoint of that name, \<open>skipToWaypointName\<close> returns
  false and the route is unchanged. Otherwise the legs are \<open>before @ leg # after\<close>, where
  \<open>leg\<close> is the first leg with such a waypoint: the legs \<open>before\<close> are appended to the flown
  legs, \<open>leg\<close> is advanced by its own \<open>skipToWaypoint\<close> (after which its current waypoint
  has that name), the legs \<open>after\<close> stay as they are, and the value returned is the one
  that this \<open>skipToWaypoint\<close> returns.
\<close>

theorem skipToWaypointName_result:
  "(\<not> hasWaypoint waypointName r \<longrightarrow> skipToWaypointName waypointName r = Inr (False, r))
   \<and> (hasWaypoint waypointName r \<longrightarrow>
        (\<exists>before leg after.
            rt_legCollection r = before @ leg # after
          \<and> (\<forall>l \<in> set before. \<not> leg_hasWaypoint waypointName l)
          \<and> leg_hasWaypoint waypointName leg
          \<and> (\<exists>w. leg_currentWaypoint (snd (leg_skipToWaypoint waypointName leg)) = Some w
                   \<and> wp_name w = waypointName)
          \<and> skipToWaypointName waypointName r =
              Inr (fst (leg_skipToWaypoint waypointName leg),
                   \<lparr> rt_legCollection = snd (leg_skipToWaypoint waypointName leg) # after,
                     rt_previousLegCollection = rt_previousLegCollection r @ before \<rparr>)))"
proof (intro conjI impI)
  assume "\<not> hasWaypoint waypointName r"
  then show "skipToWaypointName waypointName r = Inr (False, r)"
    by (rule skipToWaypointName_absent)
next
  assume "hasWaypoint waypointName r"
  then have "\<exists>l \<in> set (rt_legCollection r). leg_hasWaypoint waypointName l"
    by (simp add: hasWaypoint_def hasWaypoint_loop_iff)
  from split_list_first_prop[OF this] obtain before leg after where
    split: "rt_legCollection r = before @ leg # after"
      "leg_hasWaypoint waypointName leg"
      "\<forall>l \<in> set before. \<not> leg_hasWaypoint waypointName l"
    by blast
  note skip = leg_skipToWaypoint_succeeds[OF split(2)]
  have "skipToWaypointName waypointName r =
              Inr (fst (leg_skipToWaypoint waypointName leg),
                   \<lparr> rt_legCollection = snd (leg_skipToWaypoint waypointName leg) # after,
                     rt_previousLegCollection = rt_previousLegCollection r @ before \<rparr>)"
    using skipToWaypointName_present[OF split(1) split(3) split(2)] skip(1) by simp
  with split skip(4)
  show "\<exists>before leg after.
            rt_legCollection r = before @ leg # after
          \<and> (\<forall>l \<in> set before. \<not> leg_hasWaypoint waypointName l)
          \<and> leg_hasWaypoint waypointName leg
          \<and> (\<exists>w. leg_currentWaypoint (snd (leg_skipToWaypoint waypointName leg)) = Some w
                   \<and> wp_name w = waypointName)
          \<and> skipToWaypointName waypointName r =
              Inr (fst (leg_skipToWaypoint waypointName leg),
                   \<lparr> rt_legCollection = snd (leg_skipToWaypoint waypointName leg) # after,
                     rt_previousLegCollection = rt_previousLegCollection r @ before \<rparr>)"
    by blast
qed

text \<open>
  The example of the specification: \<open>JLI\<close> is a waypoint of the second of three legs only.
  The first leg becomes a flown leg, the second one is advanced past \<open>SXC\<close>, the third
  one is untouched; an absent name changes nothing.
\<close>

theorem skipToWaypointName_result_witness:
  "hasWaypoint ''JLI'' exampleRoute
   \<and> skipToWaypointName ''JLI'' exampleRoute =
       Inr (True,
            \<lparr> rt_legCollection =
                [(legOfFixes ''SXC.V458.IPL'' [''JLI'', ''IPL''])
                   \<lparr> leg_previousWaypoints := [fixWaypoint ''SXC''] \<rparr>,
                 legOfFixes ''KLAS'' [''KLAS'']],
              rt_previousLegCollection =
                [legOfFixes ''KSFO28R.OFFSH9.SXC'' [''KSFO28R'', ''WAMMY'', ''SXC'']] \<rparr>)
   \<and> \<not> hasWaypoint ''NOSUCH'' exampleRoute
   \<and> skipToWaypointName ''NOSUCH'' exampleRoute = Inr (False, exampleRoute)"
proof -
  have present: "hasWaypoint ''JLI'' exampleRoute"
    by code_simp
  have absent: "\<not> hasWaypoint ''NOSUCH'' exampleRoute"
    by code_simp
  have moved: "skipToWaypointName ''JLI'' exampleRoute =
       Inr (True,
            \<lparr> rt_legCollection =
                [(legOfFixes ''SXC.V458.IPL'' [''JLI'', ''IPL''])
                   \<lparr> leg_previousWaypoints := [fixWaypoint ''SXC''] \<rparr>,
                 legOfFixes ''KLAS'' [''KLAS'']],
              rt_previousLegCollection =
                [legOfFixes ''KSFO28R.OFFSH9.SXC'' [''KSFO28R'', ''WAMMY'', ''SXC'']] \<rparr>)"
    by code_simp
  from skipToWaypointName_result[of "''NOSUCH''" exampleRoute] absent
  have "skipToWaypointName ''NOSUCH'' exampleRoute = Inr (False, exampleRoute)"
    by blast
  with present absent moved show ?thesis by blast
qed

section \<open>RouteModel: monotonic consumption\<close>

lemma leg_skipToNextWaypoint_allWaypoints:
  "leg_allWaypoints (leg_skipToNextWaypoint leg) = leg_allWaypoints leg"
  by (simp add: leg_allWaypoints_def leg_skipToNextWaypoint_def split: list.splits)

lemma leg_skipToNextWaypoint_rewound:
  "leg_rewound (leg_skipToNextWaypoint leg) = leg_rewound leg"
  by (simp add: leg_rewound_def leg_allWaypoints_def leg_skipToNextWaypoint_def
      split: list.splits)

lemma movedLegs_refl: "rt_legCollection r \<noteq> [] \<Longrightarrow> movedLegs 0 r r"
  by (simp add: movedLegs_def)

lemma movedLegs_trans:
  assumes "movedLegs k r r'" and "movedLegs k' r' r''"
  shows "movedLegs (k + k') r r''"
proof -
  have len: "length (rt_legCollection r') = length (rt_legCollection r) - k"
    using assms(1) by (metis movedLegs_def length_drop length_map)
  have "take k' (map leg_rewound (rt_legCollection r'))
          = take k' (drop k (map leg_rewound (rt_legCollection r)))"
    using assms(1) by (simp add: movedLegs_def)
  moreover have "drop k' (map leg_rewound (rt_legCollection r'))
          = drop (k + k') (map leg_rewound (rt_legCollection r))"
    using assms(1) by (simp add: movedLegs_def add.commute)
  moreover have "k + k' < length (rt_legCollection r)"
  proof -
    have "k < length (rt_legCollection r)"
      using assms(1) by (simp add: movedLegs_def)
    moreover have "k' < length (rt_legCollection r) - k"
      using assms(2) len by (simp add: movedLegs_def)
    ultimately show ?thesis by arith
  qed
  moreover have "totalWaypointCount r'' = totalWaypointCount r"
    using assms by (simp add: movedLegs_def)
  moreover have "map leg_rewound (rt_previousLegCollection r'') =
      map leg_rewound (rt_previousLegCollection r')
      @ take k' (map leg_rewound (rt_legCollection r'))"
    and "map leg_rewound (rt_legCollection r'') = drop k' (map leg_rewound (rt_legCollection r'))"
    and "map leg_rewound (rt_previousLegCollection r') =
      map leg_rewound (rt_previousLegCollection r)
      @ take k (map leg_rewound (rt_legCollection r))"
    using assms by (simp_all add: movedLegs_def)
  ultimately show ?thesis
    by (simp add: movedLegs_def take_add)
qed

lemma skipToNextLeg_moves:
  assumes "rt_legCollection r \<noteq> []"
  shows "\<exists>k. movedLegs k r (skipToNextLeg r)"
proof (cases "hasNextLeg r")
  case False
  then show ?thesis using assms by (auto simp: skipToNextLeg_def intro: movedLegs_refl)
next
  case True
  then obtain l rest where legs: "rt_legCollection r = l # rest" "rest \<noteq> []"
    by (cases "rt_legCollection r") (auto simp: hasNextLeg_def)
  then have "movedLegs 1 r (skipToNextLeg r)"
    using True by (simp add: movedLegs_def skipToNextLeg_def js_splice0_def totalWaypointCount_def)
  then show ?thesis ..
qed

lemma skipToNextWaypoint_moves:
  assumes "rt_legCollection r \<noteq> []"
  shows "\<exists>r' k. skipToNextWaypoint r = Inr r' \<and> movedLegs k r r'"
proof -
  from assms obtain l rest where legs: "rt_legCollection r = l # rest"
    by (cases "rt_legCollection r") auto
  then have cur: "currentLeg r = Inr l"
    by (simp add: currentLeg_def)
  show ?thesis
  proof (cases "leg_hasNextWaypoint l")
    case False
    then have "skipToNextWaypoint r = Inr (skipToNextLeg r)"
      by (simp add: skipToNextWaypoint_def cur)
    with skipToNextLeg_moves[OF assms] show ?thesis by blast
  next
    case True
    let ?r' = "r\<lparr> rt_legCollection := (rt_legCollection r)[0 := leg_skipToNextWaypoint l] \<rparr>"
    have "skipToNextWaypoint r = Inr ?r'"
      using True by (simp add: skipToNextWaypoint_def cur)
    moreover have "movedLegs 0 r ?r'"
      using legs
      by (simp add: movedLegs_def totalWaypointCount_def leg_skipToNextWaypoint_allWaypoints
          leg_skipToNextWaypoint_rewound)
    ultimately show ?thesis by blast
  qed
qed

lemma doCall_moves:
  assumes "rt_legCollection r \<noteq> []"
  shows "\<exists>r' k. doCall c r = Inr r' \<and> movedLegs k r r'"
proof (cases c)
  case SkipToNextWaypoint
  then show ?thesis using skipToNextWaypoint_moves[OF assms] by simp
next
  case SkipToNextLeg
  then show ?thesis using skipToNextLeg_moves[OF assms] by simp
qed

lemma movedLegs_nonempty: "movedLegs k r r' \<Longrightarrow> rt_legCollection r' \<noteq> []"
proof -
  assume m: "movedLegs k r r'"
  then have "length (map leg_rewound (rt_legCollection r')) = length (rt_legCollection r) - k"
    by (simp add: movedLegs_def)
  moreover have "k < length (rt_legCollection r)" using m by (simp add: movedLegs_def)
  ultimately show ?thesis by auto
qed

lemma doCalls_moves:
  assumes "rt_legCollection r \<noteq> []"
  shows "\<exists>r' k. doCalls calls r = Inr r' \<and> movedLegs k r r'"
  using assms
proof (induction calls arbitrary: r)
  case Nil
  then show ?case using movedLegs_refl by auto
next
  case (Cons c calls)
  from doCall_moves[OF Cons.prems] obtain r1 k1 where
    one: "doCall c r = Inr r1" "movedLegs k1 r r1" by blast
  from Cons.IH[OF movedLegs_nonempty[OF one(2)]] obtain r2 k2 where
    rest: "doCalls calls r1 = Inr r2" "movedLegs k2 r1 r2" by blast
  have "doCalls (c # calls) r = Inr r2" using one(1) rest(1) by simp
  moreover have "movedLegs (k1 + k2) r r2" by (rule movedLegs_trans[OF one(2) rest(2)])
  ultimately show ?case by blast
qed

text \<open>
  C8. On a route with at least one remaining leg, every finite sequence of
  \<open>skipToNextWaypoint\<close> and \<open>skipToNextLeg\<close> calls runs without an error, and afterwards the
  number of waypoints owned by the flown and the remaining legs together is the number
  before the calls, the flown legs are the flown legs from before followed by the first
  \<open>k\<close> of the legs that were remaining, in their order, and the remaining legs are the
  others (legs compared up to the position of their cursor). For a route that starts
  with no flown leg, the flown legs are thus a prefix of the original remaining legs.
\<close>

theorem skip_calls_keep_waypoints_and_order:
  assumes "rt_legCollection r \<noteq> []"
  shows "\<exists>r' k. doCalls calls r = Inr r'
           \<and> totalWaypointCount r' = totalWaypointCount r
           \<and> k < length (rt_legCollection r)
           \<and> map leg_rewound (rt_previousLegCollection r') =
               map leg_rewound (rt_previousLegCollection r)
               @ take k (map leg_rewound (rt_legCollection r))
           \<and> map leg_rewound (rt_legCollection r') = drop k (map leg_rewound (rt_legCollection r))"
  using doCalls_moves[OF assms, of calls] by (auto simp: movedLegs_def)

text \<open>A route without any remaining leg (after \<open>reset\<close>) makes \<open>skipToNextWaypoint\<close> throw,
  through the \<open>currentLeg\<close> getter.\<close>

lemma doCalls_without_legs:
  "rt_legCollection r = [] \<Longrightarrow> doCalls [SkipToNextWaypoint] r = Inl TypeError"
  by (simp add: skipToNextWaypoint_def currentLeg_def)


text \<open>Four calls on the example route, which owns seven waypoints.\<close>

theorem skip_calls_keep_waypoints_and_order_witness:
  "rt_legCollection exampleRoute \<noteq> []
   \<and> (\<exists>r' k. doCalls [SkipToNextWaypoint, SkipToNextWaypoint, SkipToNextWaypoint, SkipToNextLeg]
                  exampleRoute = Inr r'
         \<and> totalWaypointCount r' = 7
         \<and> k < length (rt_legCollection exampleRoute)
         \<and> map leg_rewound (rt_previousLegCollection r') =
             map leg_rewound (rt_previousLegCollection exampleRoute)
             @ take k (map leg_rewound (rt_legCollection exampleRoute))
         \<and> map leg_rewound (rt_legCollection r') =
             drop k (map leg_rewound (rt_legCollection exampleRoute)))"
proof -
  have nonempty: "rt_legCollection exampleRoute \<noteq> []"
    by (simp add: exampleRoute_def)
  have seven: "totalWaypointCount exampleRoute = 7"
    by code_simp
  from skip_calls_keep_waypoints_and_order[OF nonempty,
      of "[SkipToNextWaypoint, SkipToNextWaypoint, SkipToNextWaypoint, SkipToNextLeg]"]
  show ?thesis using nonempty unfolding seven by blast
qed

section \<open>Strings: splitting and joining\<close>

lemma js_split_loop_nonempty: "js_split_loop sep cur s \<noteq> []"
  by (induction sep cur s rule: js_split_loop.induct) auto

lemma js_split_nonempty: "sep \<noteq> [] \<Longrightarrow> js_split s sep \<noteq> []"
  by (simp add: js_split_def js_split_loop_nonempty)

lemma lodash_last_last: "xs \<noteq> [] \<Longrightarrow> lodash_last xs = Some (last xs)"
  by (induction xs rule: lodash_last.induct) auto

lemma lodash_first_hd: "xs \<noteq> [] \<Longrightarrow> lodash_first xs = Some (hd xs)"
  by (cases xs) auto

section \<open>RouteModel: the segments of a route string\<close>

lemma map_index_adjacent:
  "map (\<lambda>j. h ((x # xs) ! (j - 1)) ((x # xs) ! j)) [1..<Suc (length xs)] = mapAdjacent h x xs"
proof (induction xs arbitrary: x)
  case Nil
  then show ?case by simp
next
  case (Cons y ys)
  have "[1..<Suc (length (y # ys))] = 1 # map Suc [1..<Suc (length ys)]"
    by (simp add: upt_conv_Cons map_Suc_upt del: upt_Suc)
  then have "map (\<lambda>j. h ((x # y # ys) ! (j - 1)) ((x # y # ys) ! j)) [1..<Suc (length (y # ys))]
      = h x y # map (\<lambda>j. h ((y # ys) ! (j - 1)) ((y # ys) ! j)) [1..<Suc (length ys)]"
    by (simp add: comp_def del: upt_Suc)
  with Cons.IH[of y] show ?case by simp
qed

lemma chunk_pairs:
  "first \<noteq> [] \<Longrightarrow>
   mapAdjacent (\<lambda>a b. js_String (lodash_last a) @ ''.'' @ js_join b ''.'') first
      (lodash_chunk tokens 2)
   = spec_pairSegments (last first) tokens"
proof (induction tokens arbitrary: first rule: induct_list012)
  case 1
  then show ?case by (simp add: lodash_chunk.simps)
next
  case (2 name)
  then show ?case by (simp add: lodash_chunk.simps[of "[name]"] lodash_chunk.simps[of "[]"]
        lodash_last_last)
next
  case (3 name exit tokens)
  have "lodash_chunk (name # exit # tokens) 2 = [name, exit] # lodash_chunk tokens 2"
    by (simp add: lodash_chunk.simps[of "name # exit # tokens"])
  moreover have "mapAdjacent (\<lambda>a b. js_String (lodash_last a) @ ''.'' @ js_join b ''.'')
      [name, exit] (lodash_chunk tokens 2) = spec_pairSegments (last [name, exit]) tokens"
    by (rule "3.IH"(1)) simp
  ultimately show ?case using "3.prems" by (simp add: lodash_last_last)
qed

lemma segmentsOfChainedRouteString_spec:
  "segmentsOfChainedRouteString chunk = spec_segmentsOfChunk chunk"
proof -
  let ?tokens = "js_split chunk ''.''"
  have ne: "take 3 ?tokens \<noteq> []"
    using js_split_nonempty[of "''.''" chunk] by (cases ?tokens) auto
  have "map (\<lambda>j. js_String (lodash_last ((take 3 ?tokens # lodash_chunk (drop 3 ?tokens) 2) ! (j - 1)))
                  @ ''.'' @ js_join ((take 3 ?tokens # lodash_chunk (drop 3 ?tokens) 2) ! j) ''.'')
            [1..<Suc (length (lodash_chunk (drop 3 ?tokens) 2))]
        = spec_pairSegments (last (take 3 ?tokens)) (drop 3 ?tokens)"
    using map_index_adjacent[of "\<lambda>a b. js_String (lodash_last a) @ ''.'' @ js_join b ''.''"
        "take 3 ?tokens" "lodash_chunk (drop 3 ?tokens) 2"]
      chunk_pairs[OF ne, of "drop 3 ?tokens"]
    by simp
  then show ?thesis
    by (simp add: segmentsOfChainedRouteString_def spec_segmentsOfChunk_def
        PROCEDURE_OR_AIRWAY_SEGMENT_DIVIDER_def js_splice0_def Let_def del: upt_Suc)
qed

lemma divide_string:
  "CHR '' '' \<notin> set s \<Longrightarrow>
   divideRouteStringIntoSegments DIRECT_SEGMENT_DIVIDER (JSString s)
     = Inr (concat (map segmentsOfChainedRouteString (js_split s DIRECT_SEGMENT_DIVIDER)))"
  using indexOf_space[of s]
  by (simp add: divideRouteStringIntoSegments_def foldl_append_concat)

text \<open>
  C2. On a route string without a space (so on every whitespace-free one),
  \<open>_divideRouteStringIntoSegments\<close> returns what the specification describes: the string is
  split on the direct-segment divider, and each chunk gives its first three tokens as
  one segment, followed by one segment PREVIOUS_EXIT.NAME.EXIT for each further pair of
  tokens, PREVIOUS_EXIT being the exit of the segment before.
\<close>

theorem divide_follows_specification:
  assumes "CHR '' '' \<notin> set s"
  shows "divideRouteStringIntoSegments DIRECT_SEGMENT_DIVIDER (JSString s)
           = Inr (spec_divideRouteString DIRECT_SEGMENT_DIVIDER s)"
proof -
  have "segmentsOfChainedRouteString = spec_segmentsOfChunk"
    by (rule ext) (rule segmentsOfChainedRouteString_spec)
  then show ?thesis
    using divide_string[OF assms, of DIRECT_SEGMENT_DIVIDER]
    by (simp add: spec_divideRouteString_def)
qed

text \<open>A chained route string followed by a direct segment.\<close>

theorem divide_follows_specification_witness:
  "CHR '' '' \<notin> set ''KSFO28R.OFFSH9.SXC.V458.IPL..DAG.KEPEC3.KLAS''
   \<and> spec_divideRouteString ''..'' ''KSFO28R.OFFSH9.SXC.V458.IPL..DAG.KEPEC3.KLAS''
       = [''KSFO28R.OFFSH9.SXC'', ''SXC.V458.IPL'', ''DAG.KEPEC3.KLAS'']
   \<and> divideRouteStringIntoSegments ''..'' (JSString ''KSFO28R.OFFSH9.SXC.V458.IPL..DAG.KEPEC3.KLAS'')
       = Inr [''KSFO28R.OFFSH9.SXC'', ''SXC.V458.IPL'', ''DAG.KEPEC3.KLAS'']"
proof -
  have a: "CHR '' '' \<notin> set ''KSFO28R.OFFSH9.SXC.V458.IPL..DAG.KEPEC3.KLAS''"
    by simp
  have b: "spec_divideRouteString ''..'' ''KSFO28R.OFFSH9.SXC.V458.IPL..DAG.KEPEC3.KLAS''
       = [''KSFO28R.OFFSH9.SXC'', ''SXC.V458.IPL'', ''DAG.KEPEC3.KLAS'']"
    by code_simp
  from divide_follows_specification[OF a, of "''..''"] a b show ?thesis by simp
qed

section \<open>RouteModel: reassembling what was divided\<close>

subsection \<open>Joining undoes splitting\<close>

lemma js_join_Cons: "ys \<noteq> [] \<Longrightarrow> js_join (x # ys) sep = x @ sep @ js_join ys sep"
  by (cases ys) simp_all

lemma js_join_split_loop:
  "sep \<noteq> [] \<Longrightarrow> js_join (js_split_loop sep cur s) sep = cur @ s"
proof (induction sep cur s rule: js_split_loop.induct)
  case (1 sep cur)
  then show ?case by simp
next
  case (2 sep cur c cs)
  show ?case
  proof (cases "take (length sep) (c # cs) = sep")
    case True
    have "js_join (cur # js_split_loop sep [] (drop (length sep) (c # cs))) sep
            = cur @ sep @ js_join (js_split_loop sep [] (drop (length sep) (c # cs))) sep"
      by (rule js_join_Cons) (rule js_split_loop_nonempty)
    also have "\<dots> = cur @ sep @ drop (length sep) (c # cs)"
      using "2.IH"(1) "2.prems" True by simp
    also have "sep @ drop (length sep) (c # cs) = c # cs"
      using append_take_drop_id[of "length sep" "c # cs"] True by simp
    finally show ?thesis using True "2.prems" by simp
  next
    case False
    then show ?thesis using "2.IH"(2) "2.prems" by simp
  qed
qed

lemma js_join_split: "sep \<noteq> [] \<Longrightarrow> js_join (js_split s sep) sep = s"
  by (simp add: js_split_def js_join_split_loop)

lemma js_join_append:
  "xs \<noteq> [] \<Longrightarrow> js_join (xs @ ys) sep = js_join xs sep @ concat (map (\<lambda>t. sep @ t) ys)"
proof (induction xs rule: induct_list012)
  case 1
  then show ?case by simp
next
  case (2 x)
  then show ?case
    by (induction ys arbitrary: x) (simp_all add: js_join_Cons)
next
  case (3 x y zs)
  then show ?case by simp
qed

subsection \<open>Tokens of a string split on the dot\<close>

lemma split_char_tokens:
  "t \<in> set (js_split_loop [c] cur s) \<Longrightarrow> c \<notin> set cur \<Longrightarrow> c \<notin> set t"
proof (induction "[c]" cur s arbitrary: t rule: js_split_loop.induct)
  case (1 cur)
  then show ?case by simp
next
  case (2 cur a as)
  show ?case
  proof (cases "a = c")
    case True
    with "2.prems" have "t = cur \<or> t \<in> set (js_split_loop [c] [] as)" by simp
    then show ?thesis
    proof
      assume "t = cur"
      then show ?thesis using "2.prems" by simp
    next
      assume "t \<in> set (js_split_loop [c] [] as)"
      then show ?thesis using "2.hyps"(1)[of t] True by simp
    qed
  next
    case False
    with "2.prems" have "t \<in> set (js_split_loop [c] (cur @ [a]) as)" by simp
    then show ?thesis using "2.hyps"(2)[of t] False "2.prems" by simp
  qed
qed

lemma split_dot_tokens: "t \<in> set (js_split chunk ''.'') \<Longrightarrow> CHR ''.'' \<notin> set t"
  using split_char_tokens[of t "CHR ''.''" "[]" chunk] by (simp add: js_split_def)

lemma split_char_free: "c \<notin> set t \<Longrightarrow> js_split_loop [c] cur t = [cur @ t]"
  by (induction t arbitrary: cur) auto

lemma split_char_first:
  "c \<notin> set t \<Longrightarrow> js_split_loop [c] cur (t @ c # rest) = (cur @ t) # js_split_loop [c] [] rest"
  by (induction t arbitrary: cur) auto

lemma split_char_last:
  "c \<notin> set t \<Longrightarrow> lodash_last (js_split_loop [c] cur (x @ c # t)) = Some t"
proof (induction x arbitrary: cur)
  case Nil
  then show ?case by (simp add: split_char_free)
next
  case (Cons a x)
  show ?case
  proof (cases "a = c")
    case True
    have "lodash_last (cur # js_split_loop [c] [] (x @ c # t))
            = lodash_last (js_split_loop [c] [] (x @ c # t))"
      using js_split_loop_nonempty[of "[c]" "[]" "x @ c # t"]
      by (cases "js_split_loop [c] [] (x @ c # t)") simp_all
    then show ?thesis using True Cons.IH[OF Cons.prems, of "[]"] by simp
  next
    case False
    then show ?thesis using Cons.IH[OF Cons.prems, of "cur @ [a]"] by simp
  qed
qed

text \<open>The entry and the exit of a string, as the reassembly reads them.\<close>

lemma entry_single: "CHR ''.'' \<notin> set t \<Longrightarrow> lodash_first (js_split t ''.'') = Some t"
  by (simp add: js_split_def split_char_free)

lemma exit_single: "CHR ''.'' \<notin> set t \<Longrightarrow> lodash_last (js_split t ''.'') = Some t"
  by (simp add: js_split_def split_char_free)

lemma entry_dotted:
  "CHR ''.'' \<notin> set t \<Longrightarrow> lodash_first (js_split (t @ ''.'' @ rest) ''.'') = Some t"
  by (simp add: js_split_def split_char_first)

lemma exit_dotted:
  "CHR ''.'' \<notin> set t \<Longrightarrow> lodash_last (js_split (x @ ''.'' @ t) ''.'') = Some t"
  using split_char_last[of "CHR ''.''" t "[]" x] by (simp add: js_split_def)

lemma js_replace_starts_with:
  "take (length p) s = p \<Longrightarrow> js_replace s p [] = drop (length p) s"
  by (cases s) auto

lemma js_replace_prefix: "js_replace (p @ w) p [] = w"
  using js_replace_starts_with[of p "p @ w"] by simp

subsection \<open>One pass of the reassembly loop\<close>

lemma step_merge:
  assumes "lodash_last (js_split previousLeg ''.'') = Some e"
    and "lodash_first (js_split (e @ w) ''.'') = Some e"
  shows "calculateRouteStringForLegs_step [previousLeg, e @ w] (pre @ [x]) 1 = pre @ [x @ w]"
  using assms
  by (simp add: calculateRouteStringForLegs_step_def PROCEDURE_OR_AIRWAY_SEGMENT_DIVIDER_def
      js_replace_prefix)

lemma step_push:
  assumes "lodash_last (js_split previousLeg ''.'') \<noteq> lodash_first (js_split leg ''.'')"
  shows "calculateRouteStringForLegs_step [previousLeg, leg] directRouteSegments 1
           = directRouteSegments @ [leg]"
  using assms
  by (auto simp: calculateRouteStringForLegs_step_def PROCEDURE_OR_AIRWAY_SEGMENT_DIVIDER_def)

lemma step_depends_on_neighbours:
  "calculateRouteStringForLegs_step (pre @ previousLeg # leg # rest) directRouteSegments
      (Suc (length pre))
   = calculateRouteStringForLegs_step [previousLeg, leg] directRouteSegments 1"
  by (simp add: calculateRouteStringForLegs_step_def nth_append)

lemma foldl_step_reassemble_from:
  assumes "legRouteStrings = pre @ previousLeg # rest" and "n = length legRouteStrings"
  shows "foldl (calculateRouteStringForLegs_step legRouteStrings) directRouteSegments
           [Suc (length pre)..<n]
         = reassemble previousLeg directRouteSegments rest"
  using assms
proof (induction rest arbitrary: pre previousLeg directRouteSegments)
  case Nil
  then show ?case by simp
next
  case (Cons leg rest)
  have less: "Suc (length pre) < n"
    using Cons.prems by simp
  have upt: "[Suc (length pre)..<n] = Suc (length pre) # [Suc (length (pre @ [previousLeg]))..<n]"
    using less by (simp add: upt_conv_Cons)
  have first: "calculateRouteStringForLegs_step legRouteStrings directRouteSegments (Suc (length pre))
      = calculateRouteStringForLegs_step [previousLeg, leg] directRouteSegments 1"
    unfolding Cons.prems(1) by (rule step_depends_on_neighbours)
  have shape: "legRouteStrings = (pre @ [previousLeg]) @ leg # rest"
    using Cons.prems(1) by simp
  have "foldl (calculateRouteStringForLegs_step legRouteStrings)
          (calculateRouteStringForLegs_step [previousLeg, leg] directRouteSegments 1)
          [Suc (length (pre @ [previousLeg]))..<n]
        = reassemble leg (calculateRouteStringForLegs_step [previousLeg, leg] directRouteSegments 1) rest"
    by (rule Cons.IH[OF shape Cons.prems(2)])
  then show ?case
    unfolding upt foldl_Cons first reassemble.simps .
qed

lemma calculate_reassemble:
  assumes "map leg_routeString legCollection = firstLeg # rest"
  shows "calculateRouteStringForLegs DIRECT_SEGMENT_DIVIDER legCollection
     = js_join (reassemble firstLeg [firstLeg] rest) DIRECT_SEGMENT_DIVIDER"
proof -
  have "foldl (calculateRouteStringForLegs_step (firstLeg # rest)) [firstLeg]
          [Suc (length ([] :: string list))..<length (firstLeg # rest)]
        = reassemble firstLeg [firstLeg] rest"
    by (rule foldl_step_reassemble_from) simp_all
  then have "foldl (calculateRouteStringForLegs_step (firstLeg # rest)) [firstLeg]
          [1..<Suc (length rest)] = reassemble firstLeg [firstLeg] rest"
    by simp
  moreover have "length legCollection = Suc (length rest)"
    using assms by (metis length_Cons length_map)
  ultimately show ?thesis
    using assms by (simp add: calculateRouteStringForLegs_def del: upt_Suc)
qed

subsection \<open>The segments of one chunk are merged back into the chunk\<close>

lemma pairs_reassemble:
  assumes "CHR ''.'' \<notin> set e" and "\<forall>t \<in> set tokens. CHR ''.'' \<notin> set t"
    and "lodash_last (js_split previousLeg ''.'') = Some e"
  shows "reassemble previousLeg (pre @ [x]) (spec_pairSegments e tokens @ others)
           = reassemble (last (previousLeg # spec_pairSegments e tokens))
               (pre @ [x @ concat (map (\<lambda>t. ''.'' @ t) tokens)]) others
         \<and> lodash_last (js_split (last (previousLeg # spec_pairSegments e tokens)) ''.'')
             = Some (last (e # tokens))"
  using assms
proof (induction e tokens arbitrary: previousLeg x rule: spec_pairSegments.induct)
  case (1 previousExit)
  then show ?case by simp
next
  case (2 previousExit name)
  have entry: "lodash_first (js_split (previousExit @ ''.'' @ name) ''.'') = Some previousExit"
    by (rule entry_dotted) (rule "2.prems"(1))
  have "calculateRouteStringForLegs_step [previousLeg, previousExit @ ''.'' @ name] (pre @ [x]) 1
          = pre @ [x @ ''.'' @ name]"
    by (rule step_merge[OF "2.prems"(3) entry])
  moreover have "lodash_last (js_split (previousExit @ ''.'' @ name) ''.'') = Some name"
    by (rule exit_dotted) (use "2.prems"(2) in simp)
  ultimately show ?case by simp
next
  case (3 previousExit name exit tokens)
  let ?leg = "previousExit @ ''.'' @ name @ ''.'' @ exit"
  have entry: "lodash_first (js_split ?leg ''.'') = Some previousExit"
    by (rule entry_dotted) (rule "3.prems"(1))
  have merged: "calculateRouteStringForLegs_step [previousLeg, ?leg] (pre @ [x]) 1
          = pre @ [x @ ''.'' @ name @ ''.'' @ exit]"
    by (rule step_merge[OF "3.prems"(3) entry])
  have exit: "CHR ''.'' \<notin> set exit" and rest: "\<forall>t \<in> set tokens. CHR ''.'' \<notin> set t"
    using "3.prems"(2) by simp_all
  have "lodash_last (js_split ((previousExit @ ''.'' @ name) @ ''.'' @ exit) ''.'') = Some exit"
    by (rule exit_dotted) (rule exit)
  then have legExit: "lodash_last (js_split ?leg ''.'') = Some exit" by simp
  note IH = "3.IH"[OF exit rest legExit, of "x @ ''.'' @ name @ ''.'' @ exit"]
  show ?case using merged IH by simp
qed

lemma first_segment_entry_exit:
  assumes "tokens \<noteq> []" and "\<forall>t \<in> set tokens. CHR ''.'' \<notin> set t"
  shows "lodash_first (js_split (js_join (take 3 tokens) ''.'') ''.'') = Some (hd tokens)"
    and "lodash_last (js_split (js_join (take 3 tokens) ''.'') ''.'') = Some (last (take 3 tokens))"
proof -
  consider a where "take 3 tokens = [a]" | a b where "take 3 tokens = [a, b]"
    | a b c where "take 3 tokens = [a, b, c]"
    using assms(1)
    by (cases tokens; cases "tl tokens"; cases "tl (tl tokens)") auto
  then have "lodash_first (js_split (js_join (take 3 tokens) ''.'') ''.'') = Some (hd (take 3 tokens))
      \<and> lodash_last (js_split (js_join (take 3 tokens) ''.'') ''.'') = Some (last (take 3 tokens))"
  proof cases
    case 1
    then have "CHR ''.'' \<notin> set a" using assms(2) by (metis in_set_takeD list.set_intros(1))
    then show ?thesis using 1 by (simp add: entry_single exit_single)
  next
    case 2
    then have "CHR ''.'' \<notin> set a" "CHR ''.'' \<notin> set b"
      using assms(2) by (metis in_set_takeD list.set_intros)+
    then show ?thesis using 2 entry_dotted[of a b] exit_dotted[of b a] by simp
  next
    case 3
    then have "CHR ''.'' \<notin> set a" "CHR ''.'' \<notin> set c"
      using assms(2) by (metis in_set_takeD list.set_intros)+
    then show ?thesis
      using 3 entry_dotted[of a "b @ ''.'' @ c"] exit_dotted[of c "a @ ''.'' @ b"] by simp
  qed
  moreover have "hd (take 3 tokens) = hd tokens" using assms(1) by (cases tokens) simp_all
  ultimately show "lodash_first (js_split (js_join (take 3 tokens) ''.'') ''.'') = Some (hd tokens)"
    and "lodash_last (js_split (js_join (take 3 tokens) ''.'') ''.'') = Some (last (take 3 tokens))"
    by simp_all
qed

lemma chunk_reassemble:
  fixes chunk :: string
  defines "tokens \<equiv> js_split chunk ''.''"
  defines "firstSegment \<equiv> js_join (take 3 tokens) ''.''"
  defines "pairSegments \<equiv> spec_pairSegments (last (take 3 tokens)) (drop 3 tokens)"
  shows "spec_segmentsOfChunk chunk = firstSegment # pairSegments"
    and "reassemble firstSegment (pre @ [firstSegment]) (pairSegments @ others)
           = reassemble (last (firstSegment # pairSegments)) (pre @ [chunk]) others"
    and "lodash_last (js_split (last (firstSegment # pairSegments)) ''.'') = exitOfChunk chunk"
    and "lodash_first (js_split firstSegment ''.'') = entryOfChunk chunk"
proof -
  have ne: "tokens \<noteq> []"
    unfolding tokens_def by (rule js_split_nonempty) simp
  have free: "\<forall>t \<in> set tokens. CHR ''.'' \<notin> set t"
    unfolding tokens_def using split_dot_tokens by blast
  have ne3: "take 3 tokens \<noteq> []"
    using ne by (cases tokens) simp_all
  have e: "CHR ''.'' \<notin> set (last (take 3 tokens))"
    using free ne3 by (meson in_set_takeD last_in_set)
  have rest: "\<forall>t \<in> set (drop 3 tokens). CHR ''.'' \<notin> set t"
    using free by (meson in_set_dropD)
  have exit1: "lodash_last (js_split firstSegment ''.'') = Some (last (take 3 tokens))"
    unfolding firstSegment_def by (rule first_segment_entry_exit(2)[OF ne free])
  have entry1: "lodash_first (js_split firstSegment ''.'') = Some (hd tokens)"
    unfolding firstSegment_def by (rule first_segment_entry_exit(1)[OF ne free])
  note pairs = pairs_reassemble[OF e rest exit1, of pre firstSegment others,
      folded pairSegments_def]
  have "js_join (take 3 tokens @ drop 3 tokens) ''.''
          = firstSegment @ concat (map (\<lambda>t. ''.'' @ t) (drop 3 tokens))"
    unfolding firstSegment_def by (rule js_join_append[OF ne3])
  moreover have "js_join tokens ''.'' = chunk"
    unfolding tokens_def by (rule js_join_split) simp
  ultimately have whole: "firstSegment @ concat (map (\<lambda>t. ''.'' @ t) (drop 3 tokens)) = chunk"
    by simp
  have "last (take 3 tokens @ drop 3 tokens) = last (last (take 3 tokens) # drop 3 tokens)"
    using ne3 by (simp add: last_append)
  then have lastTok: "last (last (take 3 tokens) # drop 3 tokens) = last tokens"
    by simp
  show "spec_segmentsOfChunk chunk = firstSegment # pairSegments"
    by (simp add: spec_segmentsOfChunk_def firstSegment_def pairSegments_def tokens_def Let_def)
  show "reassemble firstSegment (pre @ [firstSegment]) (pairSegments @ others)
           = reassemble (last (firstSegment # pairSegments)) (pre @ [chunk]) others"
    using pairs whole by simp
  show "lodash_last (js_split (last (firstSegment # pairSegments)) ''.'') = exitOfChunk chunk"
    using pairs lastTok ne
    by (simp add: exitOfChunk_def PROCEDURE_OR_AIRWAY_SEGMENT_DIVIDER_def lodash_last_last
        tokens_def)
  show "lodash_first (js_split firstSegment ''.'') = entryOfChunk chunk"
    using entry1 ne
    by (simp add: entryOfChunk_def PROCEDURE_OR_AIRWAY_SEGMENT_DIVIDER_def lodash_first_hd
        tokens_def)
qed

lemma chunks_reassemble:
  assumes "distinctChunkBoundaries (chunk # chunks)"
    and "lodash_last (js_split previousLeg ''.'') = exitOfChunk chunk"
  shows "reassemble previousLeg (pre @ [chunk]) (concat (map spec_segmentsOfChunk chunks))
           = pre @ chunk # chunks"
  using assms
proof (induction chunks arbitrary: chunk pre previousLeg)
  case Nil
  then show ?case by simp
next
  case (Cons nextChunk chunks)
  obtain firstSegment pairSegments where
    segs: "spec_segmentsOfChunk nextChunk = firstSegment # pairSegments"
    and merged: "\<And>pre others.
          reassemble firstSegment (pre @ [firstSegment]) (pairSegments @ others)
           = reassemble (last (firstSegment # pairSegments)) (pre @ [nextChunk]) others"
    and exit: "lodash_last (js_split (last (firstSegment # pairSegments)) ''.'') = exitOfChunk nextChunk"
    and entry: "lodash_first (js_split firstSegment ''.'') = entryOfChunk nextChunk"
    using chunk_reassemble[of nextChunk] by blast
  have differ: "exitOfChunk chunk \<noteq> entryOfChunk nextChunk"
    and distinct: "distinctChunkBoundaries (nextChunk # chunks)"
    using Cons.prems(1) by simp_all
  have push: "calculateRouteStringForLegs_step [previousLeg, firstSegment] (pre @ [chunk]) 1
                = (pre @ [chunk]) @ [firstSegment]"
    by (rule step_push) (simp add: Cons.prems(2) entry differ)
  have "reassemble previousLeg (pre @ [chunk])
          (concat (map spec_segmentsOfChunk (nextChunk # chunks)))
        = reassemble firstSegment ((pre @ [chunk]) @ [firstSegment])
            (pairSegments @ concat (map spec_segmentsOfChunk chunks))"
    using push by (simp add: segs)
  also have "\<dots> = reassemble (last (firstSegment # pairSegments)) ((pre @ [chunk]) @ [nextChunk])
            (concat (map spec_segmentsOfChunk chunks))"
    by (rule merged)
  also have "\<dots> = (pre @ [chunk]) @ nextChunk # chunks"
    by (rule Cons.IH[OF distinct exit])
  finally show ?case by simp
qed

lemma reassemble_segments:
  assumes "DIRECT_SEGMENT_DIVIDER \<noteq> []"
    and "distinctChunkBoundaries (js_split s DIRECT_SEGMENT_DIVIDER)"
    and "map leg_routeString legCollection
           = concat (map spec_segmentsOfChunk (js_split s DIRECT_SEGMENT_DIVIDER))"
  shows "calculateRouteStringForLegs DIRECT_SEGMENT_DIVIDER legCollection = s"
proof -
  obtain chunk chunks where chunks: "js_split s DIRECT_SEGMENT_DIVIDER = chunk # chunks"
    using js_split_nonempty[OF assms(1), of s] by (cases "js_split s DIRECT_SEGMENT_DIVIDER") auto
  obtain firstSegment pairSegments where
    segs: "spec_segmentsOfChunk chunk = firstSegment # pairSegments"
    and merged: "\<And>pre others.
          reassemble firstSegment (pre @ [firstSegment]) (pairSegments @ others)
           = reassemble (last (firstSegment # pairSegments)) (pre @ [chunk]) others"
    and exit: "lodash_last (js_split (last (firstSegment # pairSegments)) ''.'') = exitOfChunk chunk"
    using chunk_reassemble[of chunk] by blast
  have strings: "map leg_routeString legCollection
      = firstSegment # (pairSegments @ concat (map spec_segmentsOfChunk chunks))"
    using assms(3) by (simp add: chunks segs)
  have "reassemble firstSegment ([] @ [firstSegment])
          (pairSegments @ concat (map spec_segmentsOfChunk chunks))
        = reassemble (last (firstSegment # pairSegments)) ([] @ [chunk])
            (concat (map spec_segmentsOfChunk chunks))"
    by (rule merged)
  also have "\<dots> = [] @ chunk # chunks"
    by (rule chunks_reassemble) (use assms(2) chunks exit in simp_all)
  finally have "reassemble firstSegment [firstSegment]
          (pairSegments @ concat (map spec_segmentsOfChunk chunks)) = js_split s DIRECT_SEGMENT_DIVIDER"
    by (simp add: chunks)
  then show ?thesis
    using calculate_reassemble[OF strings, of DIRECT_SEGMENT_DIVIDER] js_join_split[OF assms(1), of s]
    by simp
qed

lemma map_throwing_routeStrings:
  assumes "\<forall>segment leg. newLegModel segment = Inr leg \<longrightarrow> leg_routeString leg = segment"
    and "lodash_map_throwing newLegModel segments = Inr legs"
  shows "map leg_routeString legs = segments"
  using assms(2)
proof (induction segments arbitrary: legs)
  case Nil
  then show ?case by simp
next
  case (Cons segment segments)
  then show ?case using assms(1) by (auto split: sum.splits)
qed

text \<open>
  C1, as amended. Let a route be constructed from a route string, by a leg constructor
  whose legs keep the segment they are built from as their route string, and let no chunk
  of the route string (the text between two direct-segment dividers) start with the
  token that the chunk before it ends with. Then the legs carry the segments of the
  route string, and \<open>_calculateRouteStringForLegs\<close> on these legs returns the route string
  itself: every transition fix, which two adjacent segments share, is written once.
  This holds for every non-empty direct-segment divider.
\<close>

theorem reassembly_returns_route_string:
  assumes "DIRECT_SEGMENT_DIVIDER \<noteq> []"
    and "new_RouteModel DIRECT_SEGMENT_DIVIDER newLegModel (JSString s) = Inr r"
    and "\<forall>segment leg. newLegModel segment = Inr leg \<longrightarrow> leg_routeString leg = segment"
    and "distinctChunkBoundaries (js_split s DIRECT_SEGMENT_DIVIDER)"
  shows "divideRouteStringIntoSegments DIRECT_SEGMENT_DIVIDER (JSString s)
           = Inr (map leg_routeString (rt_legCollection r))
         \<and> calculateRouteStringForLegs DIRECT_SEGMENT_DIVIDER (rt_legCollection r) = s
         \<and> get_routeString DIRECT_SEGMENT_DIVIDER r = s"
proof -
  from assms(2) obtain segments where
    divided: "divideRouteStringIntoSegments DIRECT_SEGMENT_DIVIDER (JSString s) = Inr segments"
    and built: "lodash_map_throwing newLegModel segments = Inr (rt_legCollection r)"
    by (auto simp: new_RouteModel_def init_def generateLegsFromRouteString_def Let_def
        split: sum.splits)
  have strings: "map leg_routeString (rt_legCollection r) = segments"
    by (rule map_throwing_routeStrings[OF assms(3) built])
  have "CHR '' '' \<notin> set s"
    using divided divide_fails_iff[of DIRECT_SEGMENT_DIVIDER "JSString s"] by auto
  then have "segments = spec_divideRouteString DIRECT_SEGMENT_DIVIDER s"
    using divided divide_string[of s DIRECT_SEGMENT_DIVIDER]
      segmentsOfChainedRouteString_spec
    by (simp add: spec_divideRouteString_def cong: map_cong)
  then have "calculateRouteStringForLegs DIRECT_SEGMENT_DIVIDER (rt_legCollection r) = s"
    using reassemble_segments[OF assms(1) assms(4), of "rt_legCollection r"] strings
    by (simp add: spec_divideRouteString_def)
  then show ?thesis
    using divided strings by (simp add: get_routeString_def)
qed


text \<open>
  The example of the specification: \<open>KSFO28R.OFFSH9.SXC.V458.IPL\<close> is divided into the
  segments \<open>KSFO28R.OFFSH9.SXC\<close> and \<open>SXC.V458.IPL\<close>, and the two legs are reassembled into
  \<open>KSFO28R.OFFSH9.SXC.V458.IPL\<close>.
\<close>

theorem reassembly_returns_route_string_witness:
  "divideRouteStringIntoSegments ''..'' (JSString ''KSFO28R.OFFSH9.SXC.V458.IPL'')
     = Inr [''KSFO28R.OFFSH9.SXC'', ''SXC.V458.IPL'']
   \<and> new_RouteModel ''..'' exampleNewLegModel (JSString ''KSFO28R.OFFSH9.SXC.V458.IPL'')
       = Inr exampleChainedRoute
   \<and> calculateRouteStringForLegs ''..'' (rt_legCollection exampleChainedRoute)
       = ''KSFO28R.OFFSH9.SXC.V458.IPL''
   \<and> get_routeString ''..'' exampleChainedRoute = ''KSFO28R.OFFSH9.SXC.V458.IPL''"
proof -
  have divider: "''..'' \<noteq> []"
    by simp
  have built: "new_RouteModel ''..'' exampleNewLegModel (JSString ''KSFO28R.OFFSH9.SXC.V458.IPL'')
       = Inr exampleChainedRoute"
    by code_simp
  have library: "\<forall>segment leg. exampleNewLegModel segment = Inr leg
                   \<longrightarrow> leg_routeString leg = segment"
    by (auto simp: exampleNewLegModel_def legOfFixes_def split: if_splits)
  have boundaries: "distinctChunkBoundaries (js_split ''KSFO28R.OFFSH9.SXC.V458.IPL'' ''..'')"
    by code_simp
  have strings: "map leg_routeString (rt_legCollection exampleChainedRoute)
       = [''KSFO28R.OFFSH9.SXC'', ''SXC.V458.IPL'']"
    by (simp add: exampleChainedRoute_def legOfFixes_def)
  from reassembly_returns_route_string[OF divider built library boundaries] built strings
  show ?thesis by simp
qed

text \<open>
  C1 as stated fails. The route string \<open>DAG..DAG.KEPEC3.KLAS\<close> (direct to \<open>DAG\<close>, then the
  arrival from \<open>DAG\<close>) is accepted by the constructor and gives the two segments \<open>DAG\<close> and
  \<open>DAG.KEPEC3.KLAS\<close>. Reassembling the two legs merges them across the direct-segment
  divider: the result \<open>DAG.KEPEC3.KLAS\<close> is not the route string, and it is divided into
  one segment, not two.
\<close>

theorem reassembly_merges_direct_leg_counterexample:
  "new_RouteModel ''..'' exampleNewLegModel (JSString ''DAG..DAG.KEPEC3.KLAS'')
     = Inr exampleDirectThenStarRoute
   \<and> divideRouteStringIntoSegments ''..'' (JSString ''DAG..DAG.KEPEC3.KLAS'')
       = Inr [''DAG'', ''DAG.KEPEC3.KLAS'']
   \<and> map leg_routeString (rt_legCollection exampleDirectThenStarRoute)
       = [''DAG'', ''DAG.KEPEC3.KLAS'']
   \<and> calculateRouteStringForLegs ''..'' (rt_legCollection exampleDirectThenStarRoute)
       = ''DAG.KEPEC3.KLAS''
   \<and> ''DAG.KEPEC3.KLAS'' \<noteq> ''DAG..DAG.KEPEC3.KLAS''
   \<and> divideRouteStringIntoSegments ''..'' (JSString ''DAG.KEPEC3.KLAS'')
       = Inr [''DAG.KEPEC3.KLAS'']"
  by code_simp

end
